theory Spec2Isabelle
  imports Complex_Main
begin

chapter \<open>The distribution grid, transition matrix and ergodic distribution of the extended consumer type\<close>

text \<open>
  A shallow embedding of the class \<open>IndShockConsumerType_extend\<close> of the notebook
  \<open>IndShockConsumerType_extend-Example.ipynb\<close>: its methods \<open>DefineDistributionGrid\<close>,
  \<open>CalcTransitionMatrix\<close>, \<open>JumpToGrid\<close> and \<open>CalcErgodicDist\<close>. numpy arrays are lists,
  floats are exact real numbers, exceptions are values, and the attributes of the instance
  are the fields of a record that the methods return updated.
\<close>

section \<open>Exceptions, loops and numpy primitives\<close>

text \<open>
  The exceptions the modelled code can raise are values of \<open>py_error\<close>; a method that can
  raise returns \<open>py_error + 'a\<close>, with \<open>Inl\<close> for the exception. \<open>SolverError\<close> stands for
  whatever the eigen-solver raises. \<open>OutsideRealModel\<close> is no Python exception: floats are
  modelled as exact reals, and it marks the runs in which the code goes on with a value that
  no real number stands for (a division of a numpy array by zero, or a complex square root).
\<close>

datatype py_error = AttributeError | IndexError | ValueError | ZeroDivisionError
  | SolverError | OutsideRealModel

text \<open>
  A \<open>for\<close> loop whose body can raise: the body is run on the items in order and the first
  exception ends the loop.
\<close>

fun fold_err :: "('a \<Rightarrow> 's \<Rightarrow> py_error + 's) \<Rightarrow> 'a list \<Rightarrow> 's \<Rightarrow> py_error + 's" where
  "fold_err f [] s = Inr s"
| "fold_err f (x # xs) s = (case f x s of Inl e \<Rightarrow> Inl e | Inr s' \<Rightarrow> fold_err f xs s')"

text \<open>
  Python indexing of a sequence of length \<open>n\<close>: a negative index counts from the end.
\<close>

definition py_index :: "nat \<Rightarrow> int \<Rightarrow> nat" where
  "py_index n k = nat (if k < 0 then int n + k else k)"

text \<open>
  \<open>np.digitize(x, bins)\<close> with the default \<open>right=False\<close>. numpy first classifies \<open>bins\<close> as
  non-decreasing (1), non-increasing (-1) or neither (0, a ValueError). For non-decreasing
  bins the result is \<open>searchsorted(bins, x, side='right')\<close>, the number of bins at or below
  \<open>x\<close>; for non-increasing bins it is \<open>len(bins) - searchsorted(bins[::-1], x, side='right')\<close>.
\<close>

definition monotonicity :: "real list \<Rightarrow> int" where
  "monotonicity bins = (if sorted bins then 1 else if sorted (rev bins) then - 1 else 0)"

definition searchsorted_right :: "real list \<Rightarrow> real \<Rightarrow> nat" where
  "searchsorted_right a v = length (filter (\<lambda>b. b \<le> v) a)"

definition digitize :: "real list \<Rightarrow> real list \<Rightarrow> py_error + nat list" where
  "digitize x bins =
     (let mono = monotonicity bins in
      if mono = 0 then Inl ValueError
      else if mono = - 1 then
        Inr (map (\<lambda>v. length bins - searchsorted_right (rev bins) v) x)
      else Inr (map (searchsorted_right bins) x))"

section \<open>The grid projector\<close>

text \<open>
  Lines 139-141 (and 143-145) of the notebook: the index array of one dimension.
  \<^verbatim>\<open>mIndex = np.digitize(m_vals, grid) - 1\<close>, then the entries of the samples at or below
  \<open>grid[0]\<close> are set to -1, then those of the samples at or above \<open>grid[-1]\<close> are set to
  \<open>len(grid) - 1\<close> (the later assignment wins). \<open>grid[0]\<close> raises IndexError on an empty grid.
\<close>

definition grid_index :: "real list \<Rightarrow> real list \<Rightarrow> py_error + int list" where
  "grid_index vals grid =
     (case digitize vals grid of
        Inl e \<Rightarrow> Inl e
      | Inr d \<Rightarrow>
          if grid = [] then Inl IndexError
          else Inr (map2 (\<lambda>v k. if last grid \<le> v then int (length grid) - 1
                                 else if v \<le> hd grid then - 1
                                 else int k - 1) vals d))"

text \<open>
  Lines 148-162 (and 164-178): the \<open>if / elif / else\<close> that turns the index of a sample into
  \<open>(lowerIndex, upperIndex, lowerWeight, upperWeight)\<close>. The code has the same text once for
  each dimension. The indices are Python indices: -1 is the last grid point.
\<close>

definition dim_weights :: "real list \<Rightarrow> int \<Rightarrow> real \<Rightarrow> int \<times> int \<times> real \<times> real" where
  "dim_weights grid idx v =
     (if idx = - 1 then (0, 0, 1, 0)
      else if idx = int (length grid) - 1 then (- 1, - 1, 1, 0)
      else
        let lowerIndex = idx;
            upperIndex = idx + 1;
            lowerWeight =
              (grid ! py_index (length grid) upperIndex - v) /
              (grid ! py_index (length grid) upperIndex - grid ! py_index (length grid) lowerIndex)
        in (lowerIndex, upperIndex, lowerWeight, 1 - lowerWeight))"

text \<open>
  One statement \<^verbatim>\<open>probGrid[a][b] = probGrid[a][b] + v\<close> of lines 180-183.
\<close>

definition add_at :: "real list list \<Rightarrow> int \<Rightarrow> int \<Rightarrow> real \<Rightarrow> real list list" where
  "add_at probGrid a b v =
     (let r = py_index (length probGrid) a;
          row = probGrid ! r;
          c = py_index (length row) b
      in probGrid[r := row[c := row ! c + v]])"

text \<open>
  The body of the loop of lines 147-183 for the sample \<open>i\<close>. \<open>range(len(m_vals))\<close> drives
  the loop, so \<open>pIndex[i]\<close> and \<open>probs[i]\<close> raise IndexError when \<open>perm_vals\<close> or \<open>probs\<close> is
  shorter than \<open>m_vals\<close>. The four cells are updated one after the other.
\<close>

definition jump_sample ::
  "real list \<Rightarrow> real list \<Rightarrow> real list \<Rightarrow> int list \<Rightarrow> real list \<Rightarrow> int list \<Rightarrow> real list \<Rightarrow>
   nat \<Rightarrow> real list list \<Rightarrow> py_error + real list list" where
  "jump_sample mGrid pGrid m_vals mIndex perm_vals pIndex probs i probGrid =
     (if i < length pIndex \<and> i < length probs then
        (case dim_weights mGrid (mIndex ! i) (m_vals ! i) of
           (mlowerIndex, mupperIndex, mlowerWeight, mupperWeight) \<Rightarrow>
        (case dim_weights pGrid (pIndex ! i) (perm_vals ! i) of
           (plowerIndex, pupperIndex, plowerWeight, pupperWeight) \<Rightarrow>
          let g1 = add_at probGrid mlowerIndex plowerIndex (probs ! i * mlowerWeight * plowerWeight);
              g2 = add_at g1 mlowerIndex pupperIndex (probs ! i * mlowerWeight * pupperWeight);
              g3 = add_at g2 mupperIndex plowerIndex (probs ! i * mupperWeight * plowerWeight);
              g4 = add_at g3 mupperIndex pupperIndex (probs ! i * mupperWeight * pupperWeight)
          in Inr g4))
      else Inl IndexError)"

text \<open>
  \<open>JumpToGrid\<close> (lines 134-185). The two grids are the attributes \<open>self.Dist_mGrid\<close> and
  \<open>self.Dist_pGrid\<close>; here they are the first two arguments. \<open>probGrid.flatten()\<close> is row
  major: cell \<open>(r, c)\<close> is entry \<open>r * len(pGrid) + c\<close>.
\<close>

definition JumpToGrid ::
  "real list \<Rightarrow> real list \<Rightarrow> real list \<Rightarrow> real list \<Rightarrow> real list \<Rightarrow> py_error + real list" where
  "JumpToGrid mGrid pGrid m_vals perm_vals probs =
     (let probGrid = replicate (length mGrid) (replicate (length pGrid) 0) in
      case grid_index m_vals mGrid of
        Inl e \<Rightarrow> Inl e
      | Inr mIndex \<Rightarrow>
      (case grid_index perm_vals pGrid of
        Inl e \<Rightarrow> Inl e
      | Inr pIndex \<Rightarrow>
      (case fold_err (jump_sample mGrid pGrid m_vals mIndex perm_vals pIndex probs)
              [0..<length m_vals] probGrid of
        Inl e \<Rightarrow> Inl e
      | Inr g \<Rightarrow> Inr (concat g))))"

section \<open>Quantities the properties are stated with\<close>

text \<open>
  The first moments of a distribution over the joint grid, in the market resources and in
  the permanent income dimension, and the probability-weighted first moment of a sample.
\<close>

definition marginal_moment_m :: "real list \<Rightarrow> real list \<Rightarrow> real list \<Rightarrow> real" where
  "marginal_moment_m mGrid pGrid vec =
     sum_list (map (\<lambda>r. sum_list (map (\<lambda>c. vec ! (r * length pGrid + c) * mGrid ! r)
                                     [0..<length pGrid]))
                   [0..<length mGrid])"

definition marginal_moment_p :: "real list \<Rightarrow> real list \<Rightarrow> real list \<Rightarrow> real" where
  "marginal_moment_p mGrid pGrid vec =
     sum_list (map (\<lambda>r. sum_list (map (\<lambda>c. vec ! (r * length pGrid + c) * pGrid ! c)
                                     [0..<length pGrid]))
                   [0..<length mGrid])"

definition sample_moment :: "real list \<Rightarrow> real list \<Rightarrow> real" where
  "sample_moment probs vals = sum_list (map (\<lambda>i. probs ! i * vals ! i) [0..<length vals])"

text \<open>
  The weight that a sample puts on the grid point \<open>a\<close> of a dimension with \<open>n\<close> grid points,
  when the code has computed \<open>(lowerIndex, upperIndex, lowerWeight, upperWeight)\<close> for it:
  lines 180-183 add the lower weight at the lower index and the upper weight at the upper
  index (the two indices may be the same point).
\<close>

definition point_weight :: "nat \<Rightarrow> int \<times> int \<times> real \<times> real \<Rightarrow> nat \<Rightarrow> real" where
  "point_weight n w a =
     (case w of (lowerIndex, upperIndex, lowerWeight, upperWeight) \<Rightarrow>
        (if a = py_index n lowerIndex then lowerWeight else 0) +
        (if a = py_index n upperIndex then upperWeight else 0))"

text \<open>
  The whole weight of a sample in one dimension lies on the grid point \<open>k\<close>.
\<close>

definition all_weight_on :: "real list \<Rightarrow> int \<times> int \<times> real \<times> real \<Rightarrow> nat \<Rightarrow> bool" where
  "all_weight_on grid w k =
     (case w of (lowerIndex, upperIndex, lowerWeight, upperWeight) \<Rightarrow>
        py_index (length grid) lowerIndex = k \<and> py_index (length grid) upperIndex = k \<and>
        lowerWeight = 1 \<and> upperWeight = 0)"

text \<open>
  The grids that \<open>np.digitize\<close> accepts and on which \<open>grid[0]\<close> exists: monotonic and not
  empty.
\<close>

definition mono_grid :: "real list \<Rightarrow> bool" where
  "mono_grid grid \<longleftrightarrow> (sorted grid \<or> sorted (rev grid)) \<and> grid \<noteq> []"

text \<open>
  The product of a real matrix, kept as its list of rows, with a real and with a complex
  vector.
\<close>

definition mat_vec :: "real list list \<Rightarrow> real list \<Rightarrow> real list" where
  "mat_vec T x = map (\<lambda>row. sum_list (map2 (\<lambda>a b. a * b) row x)) T"

definition cmat_vec :: "real list list \<Rightarrow> complex list \<Rightarrow> complex list" where
  "cmat_vec T z = map (\<lambda>row. sum_list (map2 (\<lambda>a b. complex_of_real a * b) row z)) T"

section \<open>The agent and its methods\<close>

text \<open>
  \<open>self.IncShkDstn[0]\<close>: the probabilities \<open>pmf\<close> and the atoms \<open>X[0]\<close> (permanent shocks)
  and \<open>X[1]\<close> (transitory shocks) of the discrete income shock distribution.
\<close>

record shock_dstn =
  pmf :: "real list"
  X0 :: "real list"
  X1 :: "real list"

text \<open>
  The result of a float division that may be by zero: numpy returns \<open>inf\<close>, \<open>-inf\<close> or
  \<open>nan\<close> with a warning and raises nothing.
\<close>

datatype np_float = Finite real | PosInf | NegInf | NaN

text \<open>
  The attributes of an \<open>IndShockConsumerType_extend\<close> instance that the four methods read or
  write. \<open>cFunc\<close> is \<open>self.solution[0].cFunc\<close>, absent before the model is solved. The
  attributes that the methods create are absent (\<open>None\<close>) until they are set; reading an
  absent attribute raises AttributeError. \<open>stdout\<close> collects what is printed.
\<close>

record agent =
  cycles :: int
  aXtraGrid :: "real list"
  PermShkStd :: "real list"
  LivPrb :: "real list"
  Rfree :: real
  cFunc :: "(real \<Rightarrow> real) option"
  IncShkDstn :: shock_dstn
  Dist_mGrid :: "real list option"
  Dist_pGrid :: "real list option"
  aNext :: "real list option"
  Cnow :: "real list option"
  TranMatrix :: "real list list option"
  vec_dstn :: "np_float list option"
  ergodic_distr :: "np_float list list option"
  stdout :: "string list"

text \<open>
  An argument of \<open>DefineDistributionGrid\<close>: \<open>None\<close>, a numpy array or a plain list. The
  test \<^verbatim>\<open>if Dist_mGrid == None\<close> compares a numpy array elementwise and takes the truth
  value of the resulting array: that is \<open>False\<close> for an array of one element and a ValueError
  for an array of two or more elements (ambiguous) and for the empty array. A list compares
  false. \<open>usable_grid_arg\<close> says that an argument passes the test without an exception.
\<close>

datatype grid_arg = PyNone | NdArray "real list" | PyList "real list"

definition eq_None_truth :: "grid_arg \<Rightarrow> py_error + bool" where
  "eq_None_truth a =
     (case a of
        PyNone \<Rightarrow> Inr True
      | PyList xs \<Rightarrow> Inr False
      | NdArray xs \<Rightarrow> if length xs = 1 then Inr False else Inl ValueError)"

definition usable_grid_arg :: "grid_arg \<Rightarrow> bool" where
  "usable_grid_arg a =
     (case a of PyNone \<Rightarrow> True | PyList xs \<Rightarrow> True | NdArray xs \<Rightarrow> length xs = 1)"

fun grid_values :: "grid_arg \<Rightarrow> real list" where
  "grid_values PyNone = []"
| "grid_values (NdArray xs) = xs"
| "grid_values (PyList xs) = xs"

text \<open>
  Lines 100-105: the permanent income grid built when none is supplied.
  \<open>make_grid_exp_mult\<close> is a function of the HARK library and is a parameter here; \<open>**0.5\<close>
  and \<open>np.exp\<close> are the real square root and exponential. \<open>LivPrb[0]\<close> and \<open>PermShkStd[0]\<close>
  are Python floats, so a division by \<open>1 - LivPrb[0] = 0\<close> raises ZeroDivisionError. A
  negative quotient has a complex square root and a zero grid value an infinite reciprocal;
  both leave the real model.
\<close>

definition default_pGrid ::
  "(real \<Rightarrow> real \<Rightarrow> nat \<Rightarrow> nat \<Rightarrow> real list) \<Rightarrow> agent \<Rightarrow> py_error + real list" where
  "default_pGrid make_grid_exp_mult self =
     (let num_points = 50 in
      case PermShkStd self of
        [] \<Rightarrow> Inl IndexError
      | std # _ \<Rightarrow>
      (let p_variance = std ^ 2 in
       case LivPrb self of
         [] \<Rightarrow> Inl IndexError
       | lp # _ \<Rightarrow>
           if 1 - lp = 0 then Inl ZeroDivisionError
           else if p_variance / (1 - lp) < 0 then Inl OutsideRealModel
           else
             let max_p = 20 * sqrt (p_variance / (1 - lp));
                 one_sided_grid = make_grid_exp_mult (1 + 1 / 1000) (exp max_p) num_points 2
             in if 0 \<in> set one_sided_grid then Inl OutsideRealModel
                else Inr (map (\<lambda>x. 1 / x) (rev one_sided_grid) @ [1] @ one_sided_grid)))"

text \<open>
  \<open>DefineDistributionGrid\<close> (lines 77-107). The result is the exception raised, if any,
  and the state the instance is left in: \<open>self.Dist_mGrid\<close> is assigned before the second
  comparison can raise.
\<close>

definition DefineDistributionGrid ::
  "(real \<Rightarrow> real \<Rightarrow> nat \<Rightarrow> nat \<Rightarrow> real list) \<Rightarrow> agent \<Rightarrow> grid_arg \<Rightarrow> grid_arg \<Rightarrow>
   py_error option \<times> agent" where
  "DefineDistributionGrid make_grid_exp_mult self Dist_mGrid_arg Dist_pGrid_arg =
     (if cycles self \<noteq> 0 then
        (None, self\<lparr>stdout := stdout self @
           [''Distributional methods presently only work for perpetual youth agents (cycles=0)'']\<rparr>)
      else
        case eq_None_truth Dist_mGrid_arg of
          Inl e \<Rightarrow> (Some e, self)
        | Inr m_is_None \<Rightarrow>
          (let self1 = self\<lparr>Dist_mGrid :=
                 Some (if m_is_None then aXtraGrid self else grid_values Dist_mGrid_arg)\<rparr> in
           case eq_None_truth Dist_pGrid_arg of
             Inl e \<Rightarrow> (Some e, self1)
           | Inr p_is_None \<Rightarrow>
               if p_is_None then
                 (case default_pGrid make_grid_exp_mult self1 of
                    Inl e \<Rightarrow> (Some e, self1)
                  | Inr g \<Rightarrow> (None, self1\<lparr>Dist_pGrid := Some g\<rparr>))
               else (None, self1\<lparr>Dist_pGrid := Some (grid_values Dist_pGrid_arg)\<rparr>)))"

text \<open>
  The sum of two one-dimensional numpy arrays, with broadcasting of an array of length 1.
\<close>

definition np_add :: "real list \<Rightarrow> real list \<Rightarrow> py_error + real list" where
  "np_add xs ys =
     (if length xs = length ys then Inr (map2 (+) xs ys)
      else if length xs = 1 then Inr (map (\<lambda>y. hd xs + y) ys)
      else if length ys = 1 then Inr (map (\<lambda>x. x + hd ys) xs)
      else Inl ValueError)"

text \<open>
  \<^verbatim>\<open>TranMatrix[:, k] = v\<close> on a matrix kept as its list of rows.
\<close>

definition set_col :: "real list list \<Rightarrow> nat \<Rightarrow> real list \<Rightarrow> py_error + real list list" where
  "set_col T k v =
     (if \<exists>row\<in>set T. length row \<le> k then Inl IndexError
      else if length v = length T then Inr (map2 (\<lambda>row x. row[k := x]) T v)
      else if length v = 1 then Inr (map (\<lambda>row. row[k := hd v]) T)
      else Inl ValueError)"

text \<open>
  Lines 129-131, the right-hand side: the column of the cell \<open>(i, j)\<close>. \<open>bNext[i] / PermShocks\<close>
  divides by every permanent shock; a zero shock gives a non-finite float.
\<close>

definition column_value ::
  "real list \<Rightarrow> real list \<Rightarrow> real list \<Rightarrow> real list \<Rightarrow> real list \<Rightarrow> real list \<Rightarrow> real \<Rightarrow>
   real list \<Rightarrow> nat \<Rightarrow> nat \<Rightarrow> py_error + real list" where
  "column_value mGrid pGrid bNext PermShocks TranShocks ShockProbs LivPrb0 NewBornDist i j =
     (if 0 \<in> set PermShocks then Inl OutsideRealModel
      else
        case np_add (map (\<lambda>psi. bNext ! i / psi) PermShocks) TranShocks of
          Inl e \<Rightarrow> Inl e
        | Inr mNext_ij \<Rightarrow>
          (let pNext_ij = map (\<lambda>psi. pGrid ! j * psi) PermShocks in
           case JumpToGrid mGrid pGrid mNext_ij pNext_ij ShockProbs of
             Inl e \<Rightarrow> Inl e
           | Inr d \<Rightarrow>
               np_add (map (\<lambda>a. LivPrb0 * a) d) (map (\<lambda>b. (1 - LivPrb0) * b) NewBornDist)))"

text \<open>
  Line 131: the column is stored at the linear index \<open>i * len(Dist_pGrid) + j\<close>.
\<close>

definition tran_column ::
  "real list \<Rightarrow> real list \<Rightarrow> real list \<Rightarrow> real list \<Rightarrow> real list \<Rightarrow> real list \<Rightarrow> real \<Rightarrow>
   real list \<Rightarrow> nat \<Rightarrow> nat \<Rightarrow> real list list \<Rightarrow> py_error + real list list" where
  "tran_column mGrid pGrid bNext PermShocks TranShocks ShockProbs LivPrb0 NewBornDist i j T =
     (case column_value mGrid pGrid bNext PermShocks TranShocks ShockProbs LivPrb0
             NewBornDist i j of
        Inl e \<Rightarrow> Inl e
      | Inr v \<Rightarrow> set_col T (i * length pGrid + j) v)"

text \<open>
  \<open>CalcTransitionMatrix\<close> (lines 109-132). \<open>NewBornDist\<close> is computed once, before the two
  loops. An exception loses the partial state (\<open>self.aNext\<close> and \<open>self.Cnow\<close> are already
  assigned in the code when a later line raises).
\<close>

definition CalcTransitionMatrix :: "agent \<Rightarrow> py_error + agent" where
  "CalcTransitionMatrix self =
     (case Dist_mGrid self of
        None \<Rightarrow> Inl AttributeError
      | Some mGrid \<Rightarrow>
     (case Dist_pGrid self of
        None \<Rightarrow> Inl AttributeError
      | Some pGrid \<Rightarrow>
     (case cFunc self of
        None \<Rightarrow> Inl AttributeError
      | Some c \<Rightarrow>
     (let aNext' = map (\<lambda>m. m - c m) mGrid;
          Cnow' = map c mGrid;
          bNext = map (\<lambda>a. Rfree self * a) aNext';
          ShockProbs = pmf (IncShkDstn self);
          TranShocks = X1 (IncShkDstn self);
          PermShocks = X0 (IncShkDstn self)
      in
      case LivPrb self of
        [] \<Rightarrow> Inl IndexError
      | LivPrb0 # _ \<Rightarrow>
      (case JumpToGrid mGrid pGrid TranShocks (map (\<lambda>_. 1) TranShocks) ShockProbs of
        Inl e \<Rightarrow> Inl e
      | Inr NewBornDist \<Rightarrow>
      (let G = length mGrid * length pGrid;
           TranMatrix0 = replicate G (replicate G 0)
       in
       case fold_err
              (\<lambda>i. fold_err
                 (tran_column mGrid pGrid bNext PermShocks TranShocks ShockProbs LivPrb0
                    NewBornDist i)
                 [0..<length pGrid])
              [0..<length mGrid] TranMatrix0 of
         Inl e \<Rightarrow> Inl e
       | Inr T \<Rightarrow>
           Inr (self\<lparr>aNext := Some aNext', Cnow := Some Cnow', TranMatrix := Some T\<rparr>)))))))"

text \<open>
  \<open>x / y\<close> of numpy floats.
\<close>

definition np_true_divide :: "real \<Rightarrow> real \<Rightarrow> np_float" where
  "np_true_divide x y =
     (if y \<noteq> 0 then Finite (x / y)
      else if 0 < x then PosInf
      else if x < 0 then NegInf
      else NaN)"

text \<open>
  \<open>a.reshape((n, m))\<close> of an array with \<open>n * m\<close> entries.
\<close>

definition reshape :: "nat \<Rightarrow> nat \<Rightarrow> 'a list \<Rightarrow> 'a list list" where
  "reshape n m xs = map (\<lambda>r. take m (drop (r * m) xs)) [0..<n]"

text \<open>
  \<open>CalcErgodicDist\<close> (lines 187-198). \<open>sp.linalg.eigs(TranMatrix, k=1, which='LM')\<close> is a
  function of scipy; it is the parameter \<open>eigs\<close>, which returns the eigenvalue and the
  eigenvector or raises. The reshape raises ValueError when the vector has not one entry
  per grid cell.
\<close>

definition CalcErgodicDist ::
  "(real list list \<Rightarrow> py_error + complex \<times> complex list) \<Rightarrow> agent \<Rightarrow> py_error + agent" where
  "CalcErgodicDist eigs self =
     (case TranMatrix self of
        None \<Rightarrow> Inl AttributeError
      | Some T \<Rightarrow>
     (case eigs T of
        Inl e \<Rightarrow> Inl e
      | Inr (eigen, ergodic_distr0) \<Rightarrow>
     (let re = map Re ergodic_distr0;
          ergodic_distr1 = map (\<lambda>x. np_true_divide x (sum_list re)) re
      in
      case Dist_mGrid self of
        None \<Rightarrow> Inl AttributeError
      | Some mGrid \<Rightarrow>
     (case Dist_pGrid self of
        None \<Rightarrow> Inl AttributeError
      | Some pGrid \<Rightarrow>
          if length ergodic_distr1 = length mGrid * length pGrid then
            Inr (self\<lparr>vec_dstn := Some ergodic_distr1,
                       ergodic_distr := Some (reshape (length mGrid) (length pGrid) ergodic_distr1)\<rparr>)
          else Inl ValueError))))"

text \<open>
  Column \<open>k\<close> of a matrix kept as its list of rows.
\<close>

definition col :: "real list list \<Rightarrow> nat \<Rightarrow> real list" where
  "col T k = map (\<lambda>row. row ! k) T"

section \<open>Example states\<close>

text \<open>
  A small agent: market resources grid \<open>[0, 5, 10]\<close>, permanent income grid \<open>[1, 2]\<close>,
  consumption function \<open>m / 2\<close>, interest factor 1, survival probability \<open>3/4\<close> and two
  equally likely shocks. \<open>example_solved\<close> has a one-point permanent income grid and the
  identity as its transition matrix; \<open>example_chain\<close> has a transition matrix whose only
  eigenvectors of eigenvalue 1 are the multiples of \<open>[1, 1, 1]\<close>.
\<close>

definition example_agent :: agent where
  "example_agent =
     \<lparr>cycles = 0, aXtraGrid = [0, 5, 10], PermShkStd = [1 / 20], LivPrb = [3 / 4], Rfree = 1,
      cFunc = Some (\<lambda>m. m / 2),
      IncShkDstn = \<lparr>pmf = [1 / 2, 1 / 2], X0 = [1, 2], X1 = [0, 5 / 2]\<rparr>,
      Dist_mGrid = Some [0, 5, 10], Dist_pGrid = Some [1, 2], aNext = None, Cnow = None,
      TranMatrix = None, vec_dstn = None, ergodic_distr = None, stdout = []\<rparr>"

definition example_solved :: agent where
  "example_solved =
     example_agent\<lparr>Dist_pGrid := Some [1], TranMatrix := Some [[1, 0, 0], [0, 1, 0], [0, 0, 1]]\<rparr>"

definition example_chain :: agent where
  "example_chain =
     example_agent\<lparr>Dist_pGrid := Some [1],
       TranMatrix := Some [[1 / 2, 1 / 2, 0], [1 / 2, 0, 1 / 2], [0, 1 / 2, 1 / 2]]\<rparr>"

section \<open>Auxiliary notions for the proofs\<close>

text \<open>
  \<open>wf_grid\<close>: a matrix of the given shape. \<open>cell_index\<close> and \<open>weights_of\<close>: the index and the
  weights that \<open>grid_index\<close> and \<open>dim_weights\<close> give to one value. \<open>cell_mass\<close>: the mass that a call of
  \<open>JumpToGrid\<close> puts on one cell, as a sum over the samples.
\<close>

definition wf_grid :: "nat \<Rightarrow> nat \<Rightarrow> real list list \<Rightarrow> bool" where
  "wf_grid M P g \<longleftrightarrow> length g = M \<and> (\<forall>r\<in>set g. length r = P)"

definition in_rng :: "nat \<Rightarrow> int \<times> int \<times> real \<times> real \<Rightarrow> bool" where
  "in_rng n w = (case w of (l, u, lw, uw) \<Rightarrow> py_index n l < n \<and> py_index n u < n)"

definition cell_index :: "real list \<Rightarrow> real \<Rightarrow> int" where
  "cell_index grid v =
     (if last grid \<le> v then int (length grid) - 1
      else if v \<le> hd grid then - 1
      else int (if sorted grid then searchsorted_right grid v
                else length grid - searchsorted_right (rev grid) v) - 1)"

definition weights_of :: "real list \<Rightarrow> real \<Rightarrow> int \<times> int \<times> real \<times> real" where
  "weights_of grid v = dim_weights grid (cell_index grid v) v"

definition cell_mass ::
  "real list \<Rightarrow> real list \<Rightarrow> real list \<Rightarrow> real list \<Rightarrow> real list \<Rightarrow> nat \<Rightarrow> nat \<Rightarrow> real" where
  "cell_mass mG pG ms ps prs r c =
     (\<Sum>i<length ms. prs ! i * point_weight (length mG) (weights_of mG (ms ! i)) r
                              * point_weight (length pG) (weights_of pG (ps ! i)) c)"

section \<open>Facts about the grid projector\<close>

lemma fold_err_append:
  "fold_err f (xs @ ys) s =
     (case fold_err f xs s of Inl e \<Rightarrow> Inl e | Inr s' \<Rightarrow> fold_err f ys s')"
  by (induction xs arbitrary: s) (auto split: sum.splits)

lemma wf_grid_replicate: "wf_grid M P (replicate M (replicate P 0))"
  by (simp add: wf_grid_def)

lemma add_at_wf: "wf_grid M P g \<Longrightarrow> wf_grid M P (add_at g a b v)"
proof -
  assume w: "wf_grid M P g"
  have "length r = P" if "r \<in> set (add_at g a b v)" for r
  proof -
    from that have "r \<in> insert ((g ! py_index (length g) a)
        [py_index (length (g ! py_index (length g) a)) b :=
           g ! py_index (length g) a ! py_index (length (g ! py_index (length g) a)) b + v]) (set g)"
      unfolding add_at_def Let_def using set_update_subset_insert by fastforce
    then show ?thesis
    proof
      assume "r = (g ! py_index (length g) a)
        [py_index (length (g ! py_index (length g) a)) b :=
           g ! py_index (length g) a ! py_index (length (g ! py_index (length g) a)) b + v]"
      moreover have "r \<in> set (add_at g a b v)" by (rule that)
      ultimately show ?thesis
        using w that unfolding wf_grid_def add_at_def Let_def
        by (metis in_set_conv_nth length_list_update nth_list_update_eq nth_list_update_neq)
    next
      assume "r \<in> set g"
      then show ?thesis using w by (simp add: wf_grid_def)
    qed
  qed
  moreover have "length (add_at g a b v) = M"
    using w by (simp add: add_at_def wf_grid_def Let_def)
  ultimately show ?thesis by (simp add: wf_grid_def)
qed

lemma add_at_nth:
  assumes "wf_grid M P g" "py_index M a < M" "r < M" "c < P"
  shows "add_at g a b v ! r ! c =
           g ! r ! c + (if r = py_index M a \<and> c = py_index P b then v else 0)"
proof -
  have lg: "length g = M" using assms(1) by (simp add: wf_grid_def)
  have lr: "length (g ! py_index M a) = P"
    using assms(1,2) by (simp add: wf_grid_def)
  show ?thesis
    using assms(2-4) lg lr
    by (simp add: add_at_def Let_def nth_list_update)
qed

lemma grid_index_Inr:
  "grid_index vals grid = Inr idx \<longleftrightarrow>
     (sorted grid \<or> sorted (rev grid)) \<and> grid \<noteq> [] \<and> idx = map (cell_index grid) vals"
proof -
  have m: "map2 f vals (map g vals) = map (\<lambda>v. f v (g v)) vals" for f :: "real \<Rightarrow> nat \<Rightarrow> int" and g
    by (induction vals) auto
  show ?thesis
    by (auto simp: grid_index_def digitize_def monotonicity_def Let_def m cell_index_def
        split: sum.splits if_splits)
qed

lemma searchsorted_right_le: "searchsorted_right a v \<le> length a"
  by (simp add: searchsorted_right_def)

lemma cell_index_bounds:
  "grid \<noteq> [] \<Longrightarrow> - 1 \<le> cell_index grid v \<and> cell_index grid v \<le> int (length grid) - 1"
  using searchsorted_right_le [of grid v]
  by (auto simp: cell_index_def)

lemma dim_weights_in_rng:
  "grid \<noteq> [] \<Longrightarrow> - 1 \<le> idx \<Longrightarrow> idx \<le> int (length grid) - 1 \<Longrightarrow>
   in_rng (length grid) (dim_weights grid idx v)"
proof -
  assume "grid \<noteq> []"
  then obtain n where n: "length grid = Suc n" by (cases grid) auto
  assume "- 1 \<le> idx" "idx \<le> int (length grid) - 1"
  then show ?thesis
    by (auto simp: in_rng_def dim_weights_def py_index_def Let_def n)
qed

lemma weights_of_in_rng: "grid \<noteq> [] \<Longrightarrow> in_rng (length grid) (weights_of grid v)"
  unfolding weights_of_def using cell_index_bounds [of grid v]
  by (intro dim_weights_in_rng) auto

lemma dim_weights_sum: "dim_weights grid idx v = (l, u, lw, uw) \<Longrightarrow> lw + uw = 1"
  by (auto simp: dim_weights_def Let_def split: if_splits)

lemma corner_sum:
  assumes "in_rng n w" "w = (l, u, lw, uw)"
  shows "(\<Sum>a<n. point_weight n w a) = lw + uw"
proof -
  have "(\<Sum>a<n. point_weight n w a) =
      (\<Sum>a<n. if a = py_index n l then lw else 0) + (\<Sum>a<n. if a = py_index n u then uw else 0)"
    by (simp add: point_weight_def assms(2) sum.distrib)
  also have "\<dots> = lw + uw"
    using assms by (simp add: in_rng_def)
  finally show ?thesis .
qed

lemma corner_weights_sum:
  "grid \<noteq> [] \<Longrightarrow> (\<Sum>a<length grid. point_weight (length grid) (weights_of grid v) a) = 1"
proof -
  assume g: "grid \<noteq> []"
  obtain l u lw uw where w: "weights_of grid v = (l, u, lw, uw)"
    by (metis prod_cases4)
  have "lw + uw = 1" using w dim_weights_sum by (simp add: weights_of_def)
  then show ?thesis using corner_sum [OF weights_of_in_rng [OF g] w] by simp
qed

lemma jump_sample_entry:
  assumes wf: "wf_grid M P g"
    and i: "i < length pIndex" "i < length probs"
    and rm: "in_rng M (dim_weights mGrid (mIndex ! i) (m_vals ! i))"
    and rc: "r < M" "c < P"
  shows "\<exists>g'. jump_sample mGrid pGrid m_vals mIndex perm_vals pIndex probs i g = Inr g'
           \<and> wf_grid M P g'
           \<and> g' ! r ! c = g ! r ! c +
                probs ! i * point_weight M (dim_weights mGrid (mIndex ! i) (m_vals ! i)) r
                          * point_weight P (dim_weights pGrid (pIndex ! i) (perm_vals ! i)) c"
proof -
  obtain ml mu mlw muw where m: "dim_weights mGrid (mIndex ! i) (m_vals ! i) = (ml, mu, mlw, muw)"
    by (metis prod_cases4)
  obtain pl pu plw puw where p: "dim_weights pGrid (pIndex ! i) (perm_vals ! i) = (pl, pu, plw, puw)"
    by (metis prod_cases4)
  define g1 where "g1 = add_at g ml pl (probs ! i * mlw * plw)"
  define g2 where "g2 = add_at g1 ml pu (probs ! i * mlw * puw)"
  define g3 where "g3 = add_at g2 mu pl (probs ! i * muw * plw)"
  define g4 where "g4 = add_at g3 mu pu (probs ! i * muw * puw)"
  have w1: "wf_grid M P g1" unfolding g1_def by (rule add_at_wf [OF wf])
  have w2: "wf_grid M P g2" unfolding g2_def by (rule add_at_wf [OF w1])
  have w3: "wf_grid M P g3" unfolding g3_def by (rule add_at_wf [OF w2])
  have w4: "wf_grid M P g4" unfolding g4_def by (rule add_at_wf [OF w3])
  have rl: "py_index M ml < M" and ru: "py_index M mu < M"
    using rm by (simp_all add: m in_rng_def)
  have e1: "g1 ! r ! c = g ! r ! c +
      (if r = py_index M ml \<and> c = py_index P pl then probs ! i * mlw * plw else 0)"
    unfolding g1_def by (rule add_at_nth [OF wf rl rc])
  have e2: "g2 ! r ! c = g1 ! r ! c +
      (if r = py_index M ml \<and> c = py_index P pu then probs ! i * mlw * puw else 0)"
    unfolding g2_def by (rule add_at_nth [OF w1 rl rc])
  have e3: "g3 ! r ! c = g2 ! r ! c +
      (if r = py_index M mu \<and> c = py_index P pl then probs ! i * muw * plw else 0)"
    unfolding g3_def by (rule add_at_nth [OF w2 ru rc])
  have e4: "g4 ! r ! c = g3 ! r ! c +
      (if r = py_index M mu \<and> c = py_index P pu then probs ! i * muw * puw else 0)"
    unfolding g4_def by (rule add_at_nth [OF w3 ru rc])
  have js: "jump_sample mGrid pGrid m_vals mIndex perm_vals pIndex probs i g = Inr g4"
    using i by (simp add: jump_sample_def m p Let_def g1_def g2_def g3_def g4_def)
  have "g4 ! r ! c = g ! r ! c + probs ! i * point_weight M (ml, mu, mlw, muw) r * point_weight P (pl, pu, plw, puw) c"
    unfolding e4 e3 e2 e1 point_weight_def by (simp add: algebra_simps)
  then show ?thesis using js w4 by (simp add: m p)
qed

lemma jump_sample_Inl:
  "\<not> (i < length pIndex \<and> i < length probs) \<Longrightarrow>
   jump_sample mGrid pGrid m_vals mIndex perm_vals pIndex probs i g = Inl IndexError"
  by (auto simp: jump_sample_def)

lemma jump_sample_wf:
  assumes wf: "wf_grid M P g" and i: "i < length pIndex" "i < length probs"
  shows "\<exists>g'. jump_sample mGrid pGrid m_vals mIndex perm_vals pIndex probs i g = Inr g'
           \<and> wf_grid M P g'"
proof -
  obtain ml mu mlw muw where m: "dim_weights mGrid (mIndex ! i) (m_vals ! i) = (ml, mu, mlw, muw)"
    by (metis prod_cases4)
  obtain pl pu plw puw where p: "dim_weights pGrid (pIndex ! i) (perm_vals ! i) = (pl, pu, plw, puw)"
    by (metis prod_cases4)
  show ?thesis
    using i by (simp add: jump_sample_def m p Let_def add_at_wf [OF wf, THEN add_at_wf, THEN add_at_wf, THEN add_at_wf])
qed

lemma jump_loop_entry:
  assumes wf: "wf_grid M P g"
    and n: "n \<le> length pIndex" "n \<le> length probs"
    and rm: "\<forall>i<n. in_rng M (dim_weights mGrid (mIndex ! i) (m_vals ! i))"
  shows "\<exists>g'. fold_err (jump_sample mGrid pGrid m_vals mIndex perm_vals pIndex probs)
                 [0..<n] g = Inr g'
           \<and> wf_grid M P g'
           \<and> (\<forall>r<M. \<forall>c<P. g' ! r ! c = g ! r ! c +
                (\<Sum>i<n. probs ! i * point_weight M (dim_weights mGrid (mIndex ! i) (m_vals ! i)) r
                          * point_weight P (dim_weights pGrid (pIndex ! i) (perm_vals ! i)) c))"
  using n rm
proof (induction n)
  case 0
  then show ?case using wf by simp
next
  case (Suc n)
  then obtain g1 where g1: "fold_err (jump_sample mGrid pGrid m_vals mIndex perm_vals pIndex probs)
                 [0..<n] g = Inr g1" "wf_grid M P g1"
     and e1: "\<forall>r<M. \<forall>c<P. g1 ! r ! c = g ! r ! c +
                (\<Sum>i<n. probs ! i * point_weight M (dim_weights mGrid (mIndex ! i) (m_vals ! i)) r
                          * point_weight P (dim_weights pGrid (pIndex ! i) (perm_vals ! i)) c)"
    by force
  have i: "n < length pIndex" "n < length probs" using Suc.prems by auto
  have r: "in_rng M (dim_weights mGrid (mIndex ! n) (m_vals ! n))" using Suc.prems by auto
  show ?case
  proof (cases "M = 0 \<or> P = 0")
    case True
    obtain g2 where g2: "jump_sample mGrid pGrid m_vals mIndex perm_vals pIndex probs n g1 = Inr g2"
      "wf_grid M P g2"
      using jump_sample_wf [OF g1(2) i] by blast
    then show ?thesis using True g1 g2 by (auto simp: fold_err_append)
  next
    case False
    then have z: "0 < M" "0 < P" by auto
    from jump_sample_entry [OF g1(2) i r z]
    obtain g2 where g2: "jump_sample mGrid pGrid m_vals mIndex perm_vals pIndex probs n g1 = Inr g2"
      "wf_grid M P g2" by blast
    have "g2 ! r ! c = g ! r ! c +
                (\<Sum>i<Suc n. probs ! i * point_weight M (dim_weights mGrid (mIndex ! i) (m_vals ! i)) r
                          * point_weight P (dim_weights pGrid (pIndex ! i) (perm_vals ! i)) c)"
      if "r < M" "c < P" for r c
    proof -
      have "\<exists>g'. jump_sample mGrid pGrid m_vals mIndex perm_vals pIndex probs n g1 = Inr g'
           \<and> wf_grid M P g'
           \<and> g' ! r ! c = g1 ! r ! c +
                probs ! n * point_weight M (dim_weights mGrid (mIndex ! n) (m_vals ! n)) r
                          * point_weight P (dim_weights pGrid (pIndex ! n) (perm_vals ! n)) c"
        by (rule jump_sample_entry [OF g1(2) i r that])
      then show ?thesis using g2(1) e1 that by simp
    qed
    then show ?thesis using g1 g2 by (simp add: fold_err_append)
  qed
qed

lemma fold_err_fails:
  "(\<And>s. \<exists>e. f k s = Inl e) \<Longrightarrow> k \<in> set xs \<Longrightarrow> \<exists>e. fold_err f xs s = Inl e"
proof (induction xs arbitrary: s)
  case Nil
  then show ?case by simp
next
  case (Cons x xs)
  show ?case
  proof (cases "f x s")
    case (Inl e)
    then show ?thesis by simp
  next
    case (Inr s')
    have "x \<noteq> k" using Cons.prems(1) [of s] Inr by auto
    then have "k \<in> set xs" using Cons.prems(2) by simp
    then show ?thesis using Cons.IH [OF Cons.prems(1)] Inr by simp
  qed
qed

lemma length_concat_wf: "wf_grid M P g \<Longrightarrow> length (concat g) = M * P"
proof (induction g arbitrary: M)
  case Nil
  then show ?case by (simp add: wf_grid_def)
next
  case (Cons a g)
  then obtain M' where M: "M = Suc M'" by (cases M) (auto simp: wf_grid_def)
  have "wf_grid M' P g" using Cons.prems by (auto simp: wf_grid_def M)
  then have "length (concat g) = M' * P" by (rule Cons.IH)
  moreover have "length a = P" using Cons.prems by (simp add: wf_grid_def)
  ultimately show ?case by (simp add: M)
qed

lemma concat_nth_wf:
  "wf_grid M P g \<Longrightarrow> r < M \<Longrightarrow> c < P \<Longrightarrow> concat g ! (r * P + c) = g ! r ! c"
proof (induction g arbitrary: M r)
  case Nil
  then show ?case by (simp add: wf_grid_def)
next
  case (Cons a g)
  then obtain M' where M: "M = Suc M'" by (cases M) (auto simp: wf_grid_def)
  have w: "wf_grid M' P g" using Cons.prems by (auto simp: wf_grid_def M)
  have la: "length a = P" using Cons.prems by (simp add: wf_grid_def)
  show ?case
  proof (cases r)
    case 0
    then show ?thesis using Cons.prems la by (simp add: nth_append)
  next
    case (Suc r')
    then have "r' < M'" using Cons.prems M by simp
    from Cons.IH [OF w this Cons.prems(3)] show ?thesis
      using la Suc by (simp add: nth_append add.assoc)
  qed
qed

lemma sum_regroup:
  fixes f :: "nat \<Rightarrow> real"
  shows "(\<Sum>k<M * P. f k) = (\<Sum>r<M. \<Sum>c<P. f (r * P + c))"
proof -
  have "(\<Sum>r<M. \<Sum>c<P. f (r * P + c)) = (\<Sum>r<M. sum f {r * P..<r * P + P})"
  proof (rule sum.cong [OF refl])
    fix r
    have "sum f {0 + r * P..<P + r * P} = (\<Sum>c = 0..<P. f (c + r * P))"
      by (rule sum.shift_bounds_nat_ivl)
    then show "(\<Sum>c<P. f (r * P + c)) = sum f {r * P..<r * P + P}"
      by (simp add: add.commute lessThan_atLeast0)
  qed
  also have "\<dots> = sum f {..<M * P}" by (rule sum.nat_group)
  finally show ?thesis by simp
qed

lemma sum_list_sum_lessThan: "sum_list (xs :: real list) = (\<Sum>k<length xs. xs ! k)"
  by (simp add: sum_list_sum_nth lessThan_atLeast0)

lemma JumpToGrid_Inr:
  assumes "JumpToGrid mG pG ms ps prs = Inr out"
  shows "mono_grid mG \<and> mono_grid pG \<and> length ms \<le> length ps \<and> length ms \<le> length prs
         \<and> length out = length mG * length pG
         \<and> (\<forall>r<length mG. \<forall>c<length pG. out ! (r * length pG + c) = cell_mass mG pG ms ps prs r c)"
proof -
  define M where "M = length mG"
  define P where "P = length pG"
  define g0 where "g0 = replicate M (replicate P (0::real))"
  from assms obtain mIndex where mi: "grid_index ms mG = Inr mIndex"
    by (auto simp: JumpToGrid_def Let_def split: sum.splits)
  from assms mi obtain pIndex where pi: "grid_index ps pG = Inr pIndex"
    by (auto simp: JumpToGrid_def Let_def split: sum.splits)
  from assms mi pi obtain g where
    g: "fold_err (jump_sample mG pG ms mIndex ps pIndex prs) [0..<length ms] g0 = Inr g"
    and out: "out = concat g"
    by (auto simp: JumpToGrid_def Let_def g0_def M_def P_def split: sum.splits)
  have mm: "mono_grid mG" "mIndex = map (cell_index mG) ms"
    using mi by (simp_all add: grid_index_Inr mono_grid_def)
  have pp: "mono_grid pG" "pIndex = map (cell_index pG) ps"
    using pi by (simp_all add: grid_index_Inr mono_grid_def)
  have len: "length ms \<le> length pIndex \<and> length ms \<le> length prs"
  proof (rule ccontr)
    assume "\<not> ?thesis"
    then obtain k where k: "k < length ms" "\<not> (k < length pIndex \<and> k < length prs)"
      by (metis not_le_imp_less order_less_irrefl)
    have "\<exists>e. fold_err (jump_sample mG pG ms mIndex ps pIndex prs) [0..<length ms] g0 = Inl e"
      by (rule fold_err_fails) (use k jump_sample_Inl in auto)
    then show False using g by simp
  qed
  have rng: "\<forall>i<length ms. in_rng M (dim_weights mG (mIndex ! i) (ms ! i))"
    using weights_of_in_rng [of mG] mm by (simp add: M_def mono_grid_def weights_of_def)
  have wf0: "wf_grid M P g0" unfolding g0_def by (rule wf_grid_replicate)
  from jump_loop_entry [OF wf0 _ _ rng, where pIndex = pIndex and probs = prs
      and pGrid = pG and perm_vals = ps] len g
  have wf: "wf_grid M P g"
    and ent: "\<forall>r<M. \<forall>c<P. g ! r ! c = g0 ! r ! c +
                (\<Sum>i<length ms. prs ! i * point_weight M (dim_weights mG (mIndex ! i) (ms ! i)) r
                          * point_weight P (dim_weights pG (pIndex ! i) (ps ! i)) c)"
    by auto
  have "out ! (r * P + c) = cell_mass mG pG ms ps prs r c" if rc: "r < M" "c < P" for r c
  proof -
    have "out ! (r * P + c) = g ! r ! c" unfolding out by (rule concat_nth_wf [OF wf rc])
    also have "\<dots> = (\<Sum>i<length ms. prs ! i * point_weight M (dim_weights mG (mIndex ! i) (ms ! i)) r
                          * point_weight P (dim_weights pG (pIndex ! i) (ps ! i)) c)"
      using ent rc by (simp add: g0_def)
    also have "\<dots> = cell_mass mG pG ms ps prs r c"
      unfolding cell_mass_def M_def P_def
      by (rule sum.cong [OF refl]) (use len in \<open>simp add: mm pp weights_of_def\<close>)
    finally show ?thesis .
  qed
  moreover have "length out = M * P" unfolding out by (rule length_concat_wf [OF wf])
  ultimately show ?thesis using mm(1) pp(1) len pp(2) by (simp add: M_def P_def)
qed

lemma JumpToGrid_total:
  assumes "mono_grid mG" "mono_grid pG" "length ms \<le> length ps" "length ms \<le> length prs"
  shows "\<exists>out. JumpToGrid mG pG ms ps prs = Inr out"
proof -
  have mi: "grid_index ms mG = Inr (map (cell_index mG) ms)"
    using assms(1) by (simp add: grid_index_Inr mono_grid_def)
  have pi: "grid_index ps pG = Inr (map (cell_index pG) ps)"
    using assms(2) by (simp add: grid_index_Inr mono_grid_def)
  have rng: "\<forall>i<length ms. in_rng (length mG) (dim_weights mG (map (cell_index mG) ms ! i) (ms ! i))"
    using weights_of_in_rng [of mG] assms(1) by (simp add: mono_grid_def weights_of_def)
  have "\<exists>g'. fold_err (jump_sample mG pG ms (map (cell_index mG) ms) ps (map (cell_index pG) ps) prs)
                 [0..<length ms] (replicate (length mG) (replicate (length pG) 0)) = Inr g'"
    using jump_loop_entry [OF wf_grid_replicate _ _ rng, where pIndex = "map (cell_index pG) ps"
        and probs = prs and pGrid = pG and perm_vals = ps and P = "length pG"] assms(3,4)
    by auto
  then show ?thesis by (auto simp: JumpToGrid_def mi pi)
qed

lemma searchsorted_right_sorted:
  "sorted xs \<Longrightarrow>
   (\<forall>j<searchsorted_right xs v. xs ! j \<le> v) \<and>
   (\<forall>j. searchsorted_right xs v \<le> j \<and> j < length xs \<longrightarrow> v < xs ! j)"
proof (induction xs)
  case Nil
  then show ?case by (simp add: searchsorted_right_def)
next
  case (Cons x xs)
  then have IH: "(\<forall>j<searchsorted_right xs v. xs ! j \<le> v)"
      "(\<forall>j. searchsorted_right xs v \<le> j \<and> j < length xs \<longrightarrow> v < xs ! j)"
    and le: "\<forall>y\<in>set xs. x \<le> y" by auto
  show ?case
  proof (cases "x \<le> v")
    case True
    then have k: "searchsorted_right (x # xs) v = Suc (searchsorted_right xs v)"
      by (simp add: searchsorted_right_def)
    show ?thesis unfolding k using IH True
      by (auto simp: nth_Cons split: nat.splits)
  next
    case False
    then have "filter (\<lambda>b. b \<le> v) xs = []" using le by (auto simp: filter_empty_conv)
    then have k: "searchsorted_right (x # xs) v = 0"
      using False by (simp add: searchsorted_right_def)
    have "v < xs ! j" if "j < length xs" for j
      using le False nth_mem [OF that] by fastforce
    then show ?thesis unfolding k using False
      by (auto simp: nth_Cons split: nat.splits)
  qed
qed

lemma weights_of_top:
  "grid \<noteq> [] \<Longrightarrow> last grid \<le> v \<Longrightarrow> weights_of grid v = (- 1, - 1, 1, 0)"
proof -
  assume "grid \<noteq> []"
  then obtain n where n: "length grid = Suc n" by (cases grid) auto
  assume "last grid \<le> v"
  then show ?thesis
    by (simp add: weights_of_def cell_index_def dim_weights_def n)
qed

lemma weights_of_bottom:
  "\<not> last grid \<le> v \<Longrightarrow> v \<le> hd grid \<Longrightarrow> weights_of grid v = (0, 0, 1, 0)"
  by (simp add: weights_of_def cell_index_def dim_weights_def)

lemma weights_of_interior:
  assumes "sorted grid" "\<not> last grid \<le> v" "\<not> v \<le> hd grid" and ne: "grid \<noteq> []"
  shows "\<exists>k. Suc k < length grid \<and> grid ! k \<le> v \<and> v < grid ! Suc k \<and>
             weights_of grid v =
               (int k, int k + 1, (grid ! Suc k - v) / (grid ! Suc k - grid ! k),
                1 - (grid ! Suc k - v) / (grid ! Suc k - grid ! k))"
proof -
  define K where "K = searchsorted_right grid v"
  have a: "\<forall>j<K. grid ! j \<le> v" and b: "\<forall>j. K \<le> j \<and> j < length grid \<longrightarrow> v < grid ! j"
    using searchsorted_right_sorted [OF assms(1), of v] by (simp_all add: K_def)
  have "0 < K"
  proof (rule ccontr)
    assume "\<not> 0 < K"
    then have "v < grid ! 0" using b ne by simp
    then show False using assms(3) ne by (simp add: hd_conv_nth)
  qed
  then obtain k where k: "K = Suc k" by (cases K) auto
  have "K < length grid"
  proof (rule ccontr)
    assume "\<not> K < length grid"
    then have "length grid - 1 < K" using ne by (cases grid) auto
    then have "grid ! (length grid - 1) \<le> v" using a by blast
    then show False using assms(2) ne by (simp add: last_conv_nth)
  qed
  moreover have "grid ! k \<le> v" using a k by simp
  moreover have "v < grid ! Suc k" using b k \<open>K < length grid\<close> by simp
  moreover have "cell_index grid v = int k"
    using assms k by (simp add: cell_index_def K_def)
  then have "weights_of grid v =
               (int k, int k + 1, (grid ! Suc k - v) / (grid ! Suc k - grid ! k),
                1 - (grid ! Suc k - v) / (grid ! Suc k - grid ! k))"
    using \<open>K < length grid\<close> k
    by (simp add: weights_of_def dim_weights_def Let_def py_index_def nat_add_distrib)
  ultimately show ?thesis using k by auto
qed

lemma rev_sorted_between:
  assumes "sorted (rev grid)" "grid \<noteq> []"
  shows "last grid \<le> hd grid"
proof -
  have "rev grid ! 0 \<le> rev grid ! (length grid - 1)"
    using assms by (intro sorted_nth_mono) auto
  then show ?thesis using assms(2) by (simp add: rev_nth hd_conv_nth last_conv_nth)
qed

lemma weights_of_cases:
  assumes "mono_grid grid"
  shows "weights_of grid v = (- 1, - 1, 1, 0) \<or> weights_of grid v = (0, 0, 1, 0) \<or>
         (\<exists>k. Suc k < length grid \<and> grid ! k \<le> v \<and> v < grid ! Suc k \<and>
             weights_of grid v =
               (int k, int k + 1, (grid ! Suc k - v) / (grid ! Suc k - grid ! k),
                1 - (grid ! Suc k - v) / (grid ! Suc k - grid ! k)))"
proof (cases "last grid \<le> v")
  case True
  then show ?thesis using assms weights_of_top by (simp add: mono_grid_def)
next
  case top: False
  show ?thesis
  proof (cases "v \<le> hd grid")
    case True
    then show ?thesis using top weights_of_bottom by simp
  next
    case False
    have "sorted grid"
    proof (rule ccontr)
      assume "\<not> sorted grid"
      then have "last grid \<le> hd grid" using assms rev_sorted_between by (auto simp: mono_grid_def)
      then show False using top False by simp
    qed
    moreover have "grid \<noteq> []" using assms by (simp add: mono_grid_def)
    ultimately show ?thesis using weights_of_interior [OF _ top False] by blast
  qed
qed

lemma weights_of_nonneg:
  assumes "mono_grid grid" "weights_of grid v = (l, u, lw, uw)"
  shows "0 \<le> lw \<and> 0 \<le> uw"
proof -
  consider "lw = 1 \<and> uw = 0"
    | k where "grid ! k \<le> v" "v < grid ! Suc k"
        "lw = (grid ! Suc k - v) / (grid ! Suc k - grid ! k)" "uw = 1 - lw"
    using weights_of_cases [OF assms(1), of v] assms(2) by auto
  then show ?thesis
  proof cases
    case 1
    then show ?thesis by simp
  next
    case 2
    have d: "0 < grid ! Suc k - grid ! k" using 2(1,2) by simp
    have "0 \<le> lw" unfolding 2(3) using 2(2) d by simp
    moreover have "lw \<le> 1" unfolding 2(3) using 2(1) d by (simp add: field_simps)
    ultimately show ?thesis using 2(4) by simp
  qed
qed

lemma corner_nonneg: "mono_grid grid \<Longrightarrow> 0 \<le> point_weight n (weights_of grid v) a"
proof -
  assume m: "mono_grid grid"
  obtain l u lw uw where w: "weights_of grid v = (l, u, lw, uw)" by (metis prod_cases4)
  show ?thesis using weights_of_nonneg [OF m w] by (simp add: point_weight_def w)
qed

lemma corner_wsum:
  fixes f :: "nat \<Rightarrow> real"
  assumes "in_rng n (l, u, lw, uw)"
  shows "(\<Sum>a<n. point_weight n (l, u, lw, uw) a * f a) = lw * f (py_index n l) + uw * f (py_index n u)"
proof -
  have "(\<Sum>a<n. point_weight n (l, u, lw, uw) a * f a) =
      (\<Sum>a<n. if a = py_index n l then lw * f a else 0) +
      (\<Sum>a<n. if a = py_index n u then uw * f a else 0)"
    unfolding sum.distrib [symmetric]
    by (rule sum.cong [OF refl]) (simp add: point_weight_def algebra_simps)
  also have "\<dots> = lw * f (py_index n l) + uw * f (py_index n u)"
    using assms by (simp add: in_rng_def)
  finally show ?thesis .
qed

lemma interp_exact:
  fixes a b v :: real
  assumes "a \<noteq> b"
  shows "(b - v) / (b - a) * a + (1 - (b - v) / (b - a)) * b = v"
proof -
  have d: "b - a \<noteq> 0" using assms by simp
  have "1 - (b - v) / (b - a) = (v - a) / (b - a)"
    using d by (simp add: field_simps)
  then have "(b - v) / (b - a) * a + (1 - (b - v) / (b - a)) * b =
             ((b - v) * a + (v - a) * b) / (b - a)"
    by (simp add: add_divide_distrib)
  also have "(b - v) * a + (v - a) * b = v * (b - a)"
    by (simp add: algebra_simps)
  finally show ?thesis using d by simp
qed

lemma corner_first_moment:
  assumes "sorted grid" "grid \<noteq> []" "hd grid \<le> v" "v \<le> last grid"
  shows "(\<Sum>a<length grid. point_weight (length grid) (weights_of grid v) a * grid ! a) = v"
proof -
  obtain n where n: "length grid = Suc n" using assms(2) by (cases grid) auto
  have r: "in_rng (length grid) (weights_of grid v)" by (rule weights_of_in_rng [OF assms(2)])
  show ?thesis
  proof (cases "last grid \<le> v")
    case True
    then have w: "weights_of grid v = (- 1, - 1, 1, 0)" by (rule weights_of_top [OF assms(2)])
    have "(\<Sum>a<length grid. point_weight (length grid) (weights_of grid v) a * grid ! a) =
          1 * grid ! py_index (length grid) (- 1) + 0 * grid ! py_index (length grid) (- 1)"
      unfolding w by (rule corner_wsum [OF r [unfolded w]])
    also have "\<dots> = grid ! n" by (simp add: py_index_def n)
    also have "\<dots> = v" using True assms(2,4) n by (simp add: last_conv_nth)
    finally show ?thesis .
  next
    case top: False
    show ?thesis
    proof (cases "v \<le> hd grid")
      case True
      then have w: "weights_of grid v = (0, 0, 1, 0)" by (rule weights_of_bottom [OF top])
      have "(\<Sum>a<length grid. point_weight (length grid) (weights_of grid v) a * grid ! a) =
          1 * grid ! py_index (length grid) 0 + 0 * grid ! py_index (length grid) 0"
        unfolding w by (rule corner_wsum [OF r [unfolded w]])
      also have "\<dots> = grid ! 0" by (simp add: py_index_def)
      also have "\<dots> = v" using True assms(2,3) by (simp add: hd_conv_nth)
      finally show ?thesis .
    next
      case False
      from weights_of_interior [OF assms(1) top False assms(2)]
      obtain k where k: "Suc k < length grid" "grid ! k \<le> v" "v < grid ! Suc k"
        and w: "weights_of grid v =
               (int k, int k + 1, (grid ! Suc k - v) / (grid ! Suc k - grid ! k),
                1 - (grid ! Suc k - v) / (grid ! Suc k - grid ! k))" by blast
      have d: "grid ! k \<noteq> grid ! Suc k" using k(2,3) by simp
      have "(\<Sum>a<length grid. point_weight (length grid) (weights_of grid v) a * grid ! a) =
          (grid ! Suc k - v) / (grid ! Suc k - grid ! k) * grid ! py_index (length grid) (int k) +
          (1 - (grid ! Suc k - v) / (grid ! Suc k - grid ! k)) * grid ! py_index (length grid) (int k + 1)"
        unfolding w by (rule corner_wsum [OF r [unfolded w]])
      also have "\<dots> = (grid ! Suc k - v) / (grid ! Suc k - grid ! k) * grid ! k +
            (1 - (grid ! Suc k - v) / (grid ! Suc k - grid ! k)) * grid ! Suc k"
        by (simp add: py_index_def nat_add_distrib)
      also have "\<dots> = v"
        by (rule interp_exact [OF d])
      finally show ?thesis .
    qed
  qed
qed

lemma cell_mass_separable:
  fixes a b :: "nat \<Rightarrow> real"
  shows "(\<Sum>r<M. \<Sum>c<P. cell_mass mG pG ms ps prs r c * (a r * b c)) =
         (\<Sum>i<length ms. prs ! i *
            (\<Sum>r<M. point_weight (length mG) (weights_of mG (ms ! i)) r * a r) *
            (\<Sum>c<P. point_weight (length pG) (weights_of pG (ps ! i)) c * b c))"
proof -
  define t where "t i r c = prs ! i * point_weight (length mG) (weights_of mG (ms ! i)) r
                              * point_weight (length pG) (weights_of pG (ps ! i)) c * (a r * b c)" for i r c
  have "(\<Sum>r<M. \<Sum>c<P. cell_mass mG pG ms ps prs r c * (a r * b c)) =
        (\<Sum>r<M. \<Sum>c<P. \<Sum>i<length ms. t i r c)"
    by (simp add: cell_mass_def sum_distrib_right t_def)
  also have "\<dots> = (\<Sum>r<M. \<Sum>i<length ms. \<Sum>c<P. t i r c)"
    by (rule sum.cong [OF refl]) (rule sum.swap)
  also have "\<dots> = (\<Sum>i<length ms. \<Sum>r<M. \<Sum>c<P. t i r c)"
    by (rule sum.swap)
  also have "\<dots> = (\<Sum>i<length ms. prs ! i *
            (\<Sum>r<M. point_weight (length mG) (weights_of mG (ms ! i)) r * a r) *
            (\<Sum>c<P. point_weight (length pG) (weights_of pG (ps ! i)) c * b c))"
  proof (rule sum.cong [OF refl])
    fix i
    show "(\<Sum>r<M. \<Sum>c<P. t i r c) = prs ! i *
            (\<Sum>r<M. point_weight (length mG) (weights_of mG (ms ! i)) r * a r) *
            (\<Sum>c<P. point_weight (length pG) (weights_of pG (ps ! i)) c * b c)"
      by (simp add: t_def mult.assoc sum_product sum_distrib_left mult_ac)
  qed
  finally show ?thesis .
qed

lemma sum_list_upt_lessThan: "sum_list (map f [0..<n]) = (\<Sum>i<n. (f i :: real))"
  by (simp add: interv_sum_list_conv_sum_set_nat lessThan_atLeast0)

lemma JumpToGrid_functional:
  fixes a b :: "nat \<Rightarrow> real"
  assumes "JumpToGrid mG pG ms ps prs = Inr out"
  shows "(\<Sum>r<length mG. \<Sum>c<length pG. out ! (r * length pG + c) * (a r * b c)) =
         (\<Sum>i<length ms. prs ! i *
            (\<Sum>r<length mG. point_weight (length mG) (weights_of mG (ms ! i)) r * a r) *
            (\<Sum>c<length pG. point_weight (length pG) (weights_of pG (ps ! i)) c * b c))"
proof -
  have "(\<Sum>r<length mG. \<Sum>c<length pG. out ! (r * length pG + c) * (a r * b c)) =
        (\<Sum>r<length mG. \<Sum>c<length pG. cell_mass mG pG ms ps prs r c * (a r * b c))"
    using JumpToGrid_Inr [OF assms] by simp
  then show ?thesis by (simp only: cell_mass_separable)
qed

lemma JumpToGrid_mass:
  assumes "JumpToGrid mG pG ms ps prs = Inr out"
  shows "sum_list out = (\<Sum>i<length ms. prs ! i)"
proof -
  have g: "mG \<noteq> []" "pG \<noteq> []" and len: "length out = length mG * length pG"
    using JumpToGrid_Inr [OF assms] by (simp_all add: mono_grid_def)
  have "sum_list out = (\<Sum>k<length mG * length pG. out ! k)"
    by (simp add: sum_list_sum_lessThan len)
  also have "\<dots> = (\<Sum>r<length mG. \<Sum>c<length pG. out ! (r * length pG + c) * (1 * 1))"
    by (simp add: sum_regroup)
  also have "\<dots> = (\<Sum>i<length ms. prs ! i *
            (\<Sum>r<length mG. point_weight (length mG) (weights_of mG (ms ! i)) r * 1) *
            (\<Sum>c<length pG. point_weight (length pG) (weights_of pG (ps ! i)) c * 1))"
    by (rule JumpToGrid_functional [OF assms])
  also have "\<dots> = (\<Sum>i<length ms. prs ! i)"
    by (simp add: corner_weights_sum g)
  finally show ?thesis .
qed

lemma JumpToGrid_moment_m:
  assumes "JumpToGrid mG pG ms ps prs = Inr out" "sorted mG"
    and "\<forall>v\<in>set ms. hd mG \<le> v \<and> v \<le> last mG"
  shows "marginal_moment_m mG pG out = (\<Sum>i<length ms. prs ! i * ms ! i)"
proof -
  have g: "mG \<noteq> []" "pG \<noteq> []"
    using JumpToGrid_Inr [OF assms(1)] by (simp_all add: mono_grid_def)
  have "marginal_moment_m mG pG out =
        (\<Sum>r<length mG. \<Sum>c<length pG. out ! (r * length pG + c) * (mG ! r * 1))"
    by (simp add: marginal_moment_m_def sum_list_upt_lessThan)
  also have "\<dots> = (\<Sum>i<length ms. prs ! i *
            (\<Sum>r<length mG. point_weight (length mG) (weights_of mG (ms ! i)) r * mG ! r) *
            (\<Sum>c<length pG. point_weight (length pG) (weights_of pG (ps ! i)) c * 1))"
    by (rule JumpToGrid_functional [OF assms(1)])
  also have "\<dots> = (\<Sum>i<length ms. prs ! i * ms ! i)"
  proof (rule sum.cong [OF refl])
    fix i assume "i \<in> {..<length ms}"
    then have "hd mG \<le> ms ! i" "ms ! i \<le> last mG" using assms(3) by auto
    then show "prs ! i *
            (\<Sum>r<length mG. point_weight (length mG) (weights_of mG (ms ! i)) r * mG ! r) *
            (\<Sum>c<length pG. point_weight (length pG) (weights_of pG (ps ! i)) c * 1) = prs ! i * ms ! i"
      by (simp add: corner_weights_sum g corner_first_moment [OF assms(2) g(1)])
  qed
  finally show ?thesis .
qed

lemma JumpToGrid_moment_p:
  assumes "JumpToGrid mG pG ms ps prs = Inr out" "sorted pG"
    and "\<forall>i<length ms. hd pG \<le> ps ! i \<and> ps ! i \<le> last pG"
  shows "marginal_moment_p mG pG out = (\<Sum>i<length ms. prs ! i * ps ! i)"
proof -
  have g: "mG \<noteq> []" "pG \<noteq> []"
    using JumpToGrid_Inr [OF assms(1)] by (simp_all add: mono_grid_def)
  have "marginal_moment_p mG pG out =
        (\<Sum>r<length mG. \<Sum>c<length pG. out ! (r * length pG + c) * (1 * pG ! c))"
    by (simp add: marginal_moment_p_def sum_list_upt_lessThan)
  also have "\<dots> = (\<Sum>i<length ms. prs ! i *
            (\<Sum>r<length mG. point_weight (length mG) (weights_of mG (ms ! i)) r * 1) *
            (\<Sum>c<length pG. point_weight (length pG) (weights_of pG (ps ! i)) c * pG ! c))"
    by (rule JumpToGrid_functional [OF assms(1)])
  also have "\<dots> = (\<Sum>i<length ms. prs ! i * ps ! i)"
  proof (rule sum.cong [OF refl])
    fix i assume "i \<in> {..<length ms}"
    then have "hd pG \<le> ps ! i" "ps ! i \<le> last pG" using assms(3) by auto
    then show "prs ! i *
            (\<Sum>r<length mG. point_weight (length mG) (weights_of mG (ms ! i)) r * 1) *
            (\<Sum>c<length pG. point_weight (length pG) (weights_of pG (ps ! i)) c * pG ! c) = prs ! i * ps ! i"
      by (simp add: corner_weights_sum g corner_first_moment [OF assms(2) g(2)])
  qed
  finally show ?thesis .
qed

lemma strict_sorted_nth_less:
  "sorted_wrt (<) (grid :: real list) \<Longrightarrow> i < j \<Longrightarrow> j < length grid \<Longrightarrow> grid ! i < grid ! j"
  by (simp add: sorted_wrt_nth_less)

lemma strict_sorted_sorted: "sorted_wrt (<) (grid :: real list) \<Longrightarrow> sorted grid"
  by (simp add: sorted_wrt_mono_rel [of grid "(<)" "(\<le>)"])

lemma corner_top:
  assumes "grid \<noteq> []" "last grid \<le> v" "a < length grid"
  shows "point_weight (length grid) (weights_of grid v) a = (if a = length grid - 1 then 1 else 0)"
proof -
  obtain n where n: "length grid = Suc n" using assms(1) by (cases grid) auto
  show ?thesis
    by (simp add: weights_of_top [OF assms(1,2)] point_weight_def py_index_def n)
qed

lemma corner_bottom:
  assumes "sorted_wrt (<) grid" "grid \<noteq> []" "v \<le> hd grid" "a < length grid"
  shows "point_weight (length grid) (weights_of grid v) a = (if a = 0 then 1 else 0)"
proof (cases "last grid \<le> v")
  case True
  have "length grid = 1"
  proof (rule ccontr)
    assume "length grid \<noteq> 1"
    then have "0 < length grid - 1" "length grid - 1 < length grid" using assms(2) by (cases grid; simp)+
    then have "grid ! 0 < grid ! (length grid - 1)" by (rule strict_sorted_nth_less [OF assms(1)])
    then show False using True assms(2,3) by (simp add: hd_conv_nth last_conv_nth)
  qed
  then show ?thesis using corner_top [OF assms(2) True assms(4)] assms(4) by simp
next
  case False
  show ?thesis
    by (simp add: weights_of_bottom [OF False assms(3)] point_weight_def py_index_def)
qed

lemma corner_bracket:
  assumes s: "sorted_wrt (<) grid" and k: "Suc k < length grid" "grid ! k \<le> v" "v < grid ! Suc k"
  shows "point_weight (length grid) (weights_of grid v) a =
           (if a = k then (grid ! Suc k - v) / (grid ! Suc k - grid ! k)
            else if a = Suc k then 1 - (grid ! Suc k - v) / (grid ! Suc k - grid ! k) else 0)"
proof -
  have ne: "grid \<noteq> []" using k(1) by auto
  have srt: "sorted grid" by (rule strict_sorted_sorted [OF s])
  have top: "\<not> last grid \<le> v"
  proof
    assume "last grid \<le> v"
    moreover have "grid ! Suc k \<le> grid ! (length grid - 1)"
      using k(1) by (intro sorted_nth_mono [OF srt]) auto
    ultimately show False using k(3) ne by (simp add: last_conv_nth)
  qed
  show ?thesis
  proof (cases "v \<le> hd grid")
    case True
    have "k = 0"
    proof (rule ccontr)
      assume "k \<noteq> 0"
      then have "grid ! 0 < grid ! k" using k(1) by (intro strict_sorted_nth_less [OF s]) auto
      then show False using True k(2) ne by (simp add: hd_conv_nth)
    qed
    moreover have "v = grid ! k" using True k(2) ne \<open>k = 0\<close> by (simp add: hd_conv_nth)
    moreover have "grid ! k < grid ! Suc k" using k(1) by (intro strict_sorted_nth_less [OF s]) auto
    ultimately have f: "(grid ! Suc k - v) / (grid ! Suc k - grid ! k) = 1" "k = 0" by simp_all
    have "point_weight (length grid) (weights_of grid v) a = (if a = 0 then 1 else 0)"
      by (simp add: weights_of_bottom [OF top True] point_weight_def py_index_def)
    then show ?thesis unfolding f(1) using f(2) by simp
  next
    case False
    from weights_of_interior [OF srt top False ne]
    obtain k' where k': "Suc k' < length grid" "grid ! k' \<le> v" "v < grid ! Suc k'"
      and w: "weights_of grid v =
               (int k', int k' + 1, (grid ! Suc k' - v) / (grid ! Suc k' - grid ! k'),
                1 - (grid ! Suc k' - v) / (grid ! Suc k' - grid ! k'))" by blast
    have "k' = k"
    proof (rule ccontr)
      assume "k' \<noteq> k"
      then consider "Suc k' \<le> k" | "Suc k \<le> k'" by linarith
      then show False
      proof cases
        case 1
        then have "grid ! Suc k' \<le> grid ! k" using k(1) by (intro sorted_nth_mono [OF srt]) auto
        then show False using k(2) k'(3) by simp
      next
        case 2
        then have "grid ! Suc k \<le> grid ! k'" using k'(1) by (intro sorted_nth_mono [OF srt]) auto
        then show False using k(3) k'(2) by simp
      qed
    qed
    then show ?thesis
      by (simp add: w point_weight_def py_index_def nat_add_distrib)
  qed
qed

lemma corner_on_grid:
  assumes s: "sorted_wrt (<) grid" and k: "k < length grid" and a: "a < length grid"
  shows "point_weight (length grid) (weights_of grid (grid ! k)) a = (if a = k then 1 else 0)"
proof (cases "Suc k < length grid")
  case True
  have "grid ! k < grid ! Suc k" using True by (intro strict_sorted_nth_less [OF s]) auto
  then show ?thesis using corner_bracket [OF s True, of "grid ! k" a] by simp
next
  case False
  then have "k = length grid - 1" using k by simp
  moreover have ne: "grid \<noteq> []" using k by auto
  ultimately have "last grid \<le> grid ! k" by (simp add: last_conv_nth)
  from corner_top [OF ne this a] show ?thesis using \<open>k = length grid - 1\<close> by simp
qed

lemma corner_midpoint:
  assumes s: "sorted_wrt (<) grid" and k: "Suc k < length grid"
  shows "point_weight (length grid) (weights_of grid ((grid ! k + grid ! Suc k) / 2)) a =
           (if a = k \<or> a = Suc k then 1 / 2 else 0)"
proof -
  have lt: "grid ! k < grid ! Suc k" using k by (intro strict_sorted_nth_less [OF s]) auto
  have h: "(grid ! Suc k - (grid ! k + grid ! Suc k) / 2) / (grid ! Suc k - grid ! k) = 1 / 2"
    using lt by (simp add: field_simps)
  show ?thesis
    using corner_bracket [OF s k, of "(grid ! k + grid ! Suc k) / 2" a] lt
    unfolding h by auto
qed

lemma sample_moment_sum: "sample_moment probs vals = (\<Sum>i<length vals. probs ! i * vals ! i)"
  by (simp add: sample_moment_def sum_list_upt_lessThan)

lemma weights_on_bottom:
  assumes "sorted_wrt (<) grid" "grid \<noteq> []" "v \<le> hd grid"
  shows "all_weight_on grid (weights_of grid v) 0"
proof (cases "last grid \<le> v")
  case True
  have "length grid = 1"
  proof (rule ccontr)
    assume "length grid \<noteq> 1"
    then have "0 < length grid - 1" "length grid - 1 < length grid" using assms(2) by (cases grid; simp)+
    then have "grid ! 0 < grid ! (length grid - 1)" by (rule strict_sorted_nth_less [OF assms(1)])
    then show False using True assms(2,3) by (simp add: hd_conv_nth last_conv_nth)
  qed
  then show ?thesis
    by (simp add: weights_of_top [OF assms(2) True] all_weight_on_def py_index_def)
next
  case False
  show ?thesis
    by (simp add: weights_of_bottom [OF False assms(3)] all_weight_on_def py_index_def)
qed

lemma weights_on_top:
  assumes "grid \<noteq> []" "last grid \<le> v"
  shows "all_weight_on grid (weights_of grid v) (length grid - 1)"
proof -
  obtain n where n: "length grid = Suc n" using assms(1) by (cases grid) auto
  show ?thesis
    by (simp add: weights_of_top [OF assms] all_weight_on_def py_index_def n)
qed

lemma cell_mass_zero_m:
  assumes "\<forall>i<length ms. point_weight (length mG) (weights_of mG (ms ! i)) r = 0"
  shows "cell_mass mG pG ms ps prs r c = 0"
  using assms by (simp add: cell_mass_def)

lemma cell_mass_zero_p:
  assumes "\<forall>i<length ms. point_weight (length pG) (weights_of pG (ps ! i)) c = 0"
  shows "cell_mass mG pG ms ps prs r c = 0"
  using assms by (simp add: cell_mass_def)

lemma cell_mass_single:
  "cell_mass mG pG [m] [p] [pr] r c =
     pr * point_weight (length mG) (weights_of mG m) r * point_weight (length pG) (weights_of pG p) c"
  by (simp add: cell_mass_def)

lemma JumpToGrid_single:
  assumes "sorted_wrt (<) mG" "mG \<noteq> []" "sorted_wrt (<) pG" "pG \<noteq> []"
  shows "\<exists>out. JumpToGrid mG pG [m] [p] [pr] = Inr out \<and> length out = length mG * length pG \<and>
           (\<forall>r<length mG. \<forall>c<length pG. out ! (r * length pG + c) =
              pr * point_weight (length mG) (weights_of mG m) r * point_weight (length pG) (weights_of pG p) c)"
proof -
  have "mono_grid mG" "mono_grid pG"
    using assms by (simp_all add: mono_grid_def strict_sorted_sorted)
  then obtain out where out: "JumpToGrid mG pG [m] [p] [pr] = Inr out"
    using JumpToGrid_total [of mG pG "[m]" "[p]" "[pr]"] by auto
  show ?thesis using JumpToGrid_Inr [OF out] out by (simp add: cell_mass_single)
qed

section \<open>Facts about the transition matrix\<close>

lemma fold_err_map: "fold_err f (map g xs) s = fold_err (\<lambda>x. f (g x)) xs s"
  by (induction xs arbitrary: s) (auto split: sum.splits)

lemma fold_err_product:
  "fold_err (\<lambda>i. fold_err (f i) js) is s = fold_err (\<lambda>(i, j). f i j) (List.product is js) s"
proof (induction "is" arbitrary: s)
  case Nil
  then show ?case by simp
next
  case (Cons i "is")
  show ?case
    by (simp add: fold_err_append fold_err_map Cons.IH split: sum.splits)
qed

lemma set_col_Inr:
  assumes "wf_grid G G T" "k < G" "length v = G"
  shows "\<exists>T'. set_col T k v = Inr T' \<and> wf_grid G G T' \<and>
           (\<forall>k'<G. col T' k' = (if k' = k then v else col T k'))"
proof -
  have lt: "length T = G" and rows: "\<forall>row\<in>set T. length row = G"
    using assms(1) by (simp_all add: wf_grid_def)
  define T' where "T' = map2 (\<lambda>row x. row[k := x]) T v"
  have s: "set_col T k v = Inr T'"
    using rows assms(2,3) lt by (auto simp: set_col_def T'_def)
  have n: "T' ! r = (T ! r)[k := v ! r]" if "r < G" for r
    using that lt assms(3) by (simp add: T'_def)
  have l: "length T' = G" using lt assms(3) by (simp add: T'_def)
  have w: "wf_grid G G T'"
    unfolding wf_grid_def
  proof (intro conjI ballI)
    show "length T' = G" by (rule l)
  next
    fix row assume "row \<in> set T'"
    then obtain r where r: "r < G" "row = T' ! r" using l by (auto simp: in_set_conv_nth)
    then show "length row = G" using n [OF r(1)] rows lt by simp
  qed
  have "col T' k' = (if k' = k then v else col T k')" if "k' < G" for k'
  proof (rule nth_equalityI)
    show "length (col T' k') = length (if k' = k then v else col T k')"
      using l lt assms(3) by (simp add: col_def)
  next
    fix r assume "r < length (col T' k')"
    then have r: "r < G" using l by (simp add: col_def)
    then have "length (T ! r) = G" using rows lt by simp
    then show "col T' k' ! r = (if k' = k then v else col T k') ! r"
      using r l lt n [OF r] assms(2) that by (simp add: col_def)
  qed
  then show ?thesis using s w by blast
qed

lemma fold_set_col:
  assumes "fold_err (\<lambda>x T. case val x of Inl e \<Rightarrow> Inl e | Inr v \<Rightarrow> set_col T (key x) v) xs T0 = Inr T"
    and "wf_grid G G T0"
    and "distinct (map key xs)"
    and "\<forall>x\<in>set xs. key x < G"
    and "\<forall>x\<in>set xs. \<forall>v. val x = Inr v \<longrightarrow> length v = G"
  shows "wf_grid G G T \<and> (\<forall>x\<in>set xs. val x = Inr (col T (key x))) \<and>
         (\<forall>k<G. k \<notin> key ` set xs \<longrightarrow> col T k = col T0 k)"
  using assms
proof (induction xs arbitrary: T0)
  case Nil
  then show ?case by simp
next
  case (Cons x xs)
  from Cons.prems(1) obtain v where v: "val x = Inr v"
    by (cases "val x") auto
  have lv: "length v = G" and kx: "key x < G" using Cons.prems(4,5) v by auto
  from set_col_Inr [OF Cons.prems(2) kx lv]
  obtain T1 where T1: "set_col T0 (key x) v = Inr T1" "wf_grid G G T1"
    and c1: "\<forall>k'<G. col T1 k' = (if k' = key x then v else col T0 k')" by blast
  have f: "fold_err (\<lambda>x T. case val x of Inl e \<Rightarrow> Inl e | Inr v \<Rightarrow> set_col T (key x) v) xs T1 = Inr T"
    using Cons.prems(1) v T1(1) by simp
  have IH: "wf_grid G G T \<and> (\<forall>x\<in>set xs. val x = Inr (col T (key x))) \<and>
         (\<forall>k<G. k \<notin> key ` set xs \<longrightarrow> col T k = col T1 k)"
    using Cons.prems(3,4,5) by (intro Cons.IH [OF f T1(2)]) auto
  have "key x \<notin> key ` set xs" using Cons.prems(3) by auto
  then have "col T (key x) = v" using IH kx c1 by simp
  moreover have "col T k = col T0 k" if "k < G" "k \<notin> key ` set (x # xs)" for k
    using IH c1 that by auto
  ultimately show ?case using IH v by auto
qed

lemma fold_set_col_total:
  assumes "wf_grid G G T0"
    and "\<forall>x\<in>set xs. key x < G"
    and "\<forall>x\<in>set xs. \<exists>v. val x = Inr v \<and> length v = G"
  shows "\<exists>T. fold_err (\<lambda>x T. case val x of Inl e \<Rightarrow> Inl e | Inr v \<Rightarrow> set_col T (key x) v) xs T0 = Inr T"
  using assms
proof (induction xs arbitrary: T0)
  case Nil
  then show ?case by simp
next
  case (Cons x xs)
  then obtain v where v: "val x = Inr v" "length v = G" by auto
  have kx: "key x < G" using Cons.prems(2) by simp
  from set_col_Inr [OF Cons.prems(1) kx v(2)]
  obtain T1 where T1: "set_col T0 (key x) v = Inr T1" "wf_grid G G T1" by blast
  have "\<exists>T. fold_err (\<lambda>x T. case val x of Inl e \<Rightarrow> Inl e | Inr v \<Rightarrow> set_col T (key x) v) xs T1 = Inr T"
    using Cons.prems(2,3) by (intro Cons.IH [OF T1(2)]) auto
  then show ?case using v T1 by simp
qed

lemma cell_key_inj:
  "inj_on (\<lambda>(i, j). i * P + j) (set (List.product [0..<M] [0..<P]))"
proof (rule inj_onI)
  fix x y
  assume x: "x \<in> set (List.product [0..<M] [0..<P])" and y: "y \<in> set (List.product [0..<M] [0..<P])"
    and e: "(case x of (i, j) \<Rightarrow> i * P + j) = (case y of (i, j) \<Rightarrow> i * P + j)"
  obtain i j where xi: "x = (i, j)" by (cases x)
  obtain i' j' where yi: "y = (i', j')" by (cases y)
  have j: "j < P" "j' < P" using x y xi yi by auto
  have eq: "i * P + j = i' * P + j'" using e xi yi by simp
  have "(i * P + j) div P = i" "(i' * P + j') div P = i'" using j by simp_all
  then have "i = i'" using eq by simp
  then show "x = y" using eq xi yi by simp
qed

lemma cell_key_distinct:
  "distinct (map (\<lambda>(i, j). i * P + j) (List.product [0..<M] [0..<P]))"
  unfolding distinct_map using cell_key_inj [of P M] by (simp add: distinct_product)

lemma cell_key_less: "i < M \<Longrightarrow> j < P \<Longrightarrow> i * P + j < M * (P::nat)"
proof -
  assume "i < M" "j < P"
  then have "i * P + j < i * P + P" by simp
  also have "\<dots> = Suc i * P" by simp
  also have "\<dots> \<le> M * P" using \<open>i < M\<close> by (intro mult_le_mono1) simp
  finally show ?thesis .
qed

lemma map2_map_map:
  "map2 h (map f xs) (map g ys) = map2 (\<lambda>x y. h (f x) (g y)) xs ys"
  by (induction xs ys rule: list_induct2') auto

lemma map2_map_left:
  "map2 h (map f xs) ys = map2 (\<lambda>x y. h (f x) y) xs ys"
  by (induction xs ys rule: list_induct2') auto

lemma np_add_same_length:
  "length xs = length ys \<Longrightarrow> np_add xs ys = Inr (map2 (+) xs ys)"
  by (simp add: np_add_def)

lemma column_value_Inr:
  assumes "column_value mG pG bNext Perm Tran Probs s NB i j = Inr v"
    and "length NB = length mG * length pG"
  shows "0 \<notin> set Perm \<and>
         (\<exists>ms d. np_add (map (\<lambda>psi. bNext ! i / psi) Perm) Tran = Inr ms \<and>
            JumpToGrid mG pG ms (map (\<lambda>psi. pG ! j * psi) Perm) Probs = Inr d \<and>
            v = map2 (\<lambda>a b. s * a + (1 - s) * b) d NB)"
proof -
  have z: "0 \<notin> set Perm" using assms(1) by (auto simp: column_value_def split: if_splits)
  from assms(1) z obtain ms where ms: "np_add (map (\<lambda>psi. bNext ! i / psi) Perm) Tran = Inr ms"
    by (auto simp: column_value_def split: sum.splits)
  from assms(1) z ms obtain d where d: "JumpToGrid mG pG ms (map (\<lambda>psi. pG ! j * psi) Perm) Probs = Inr d"
    by (auto simp: column_value_def Let_def split: sum.splits)
  have ld: "length d = length NB" using JumpToGrid_Inr [OF d] assms(2) by simp
  have "v = map2 (\<lambda>a b. s * a + (1 - s) * b) d NB"
    using assms(1) z ms d ld
    by (simp add: column_value_def Let_def np_add_same_length map2_map_map)
  then show ?thesis using z ms d by blast
qed

lemma column_value_total:
  assumes "0 \<notin> set Perm" "length Perm = length Tran" "length Probs = length Tran"
    and "mono_grid mG" "mono_grid pG" "length NB = length mG * length pG"
  shows "\<exists>d. JumpToGrid mG pG (map2 (\<lambda>psi xi. bNext ! i / psi + xi) Perm Tran)
                (map (\<lambda>psi. pG ! j * psi) Perm) Probs = Inr d \<and>
              length d = length mG * length pG \<and>
              column_value mG pG bNext Perm Tran Probs s NB i j =
                Inr (map2 (\<lambda>a b. s * a + (1 - s) * b) d NB)"
proof -
  have ms: "np_add (map (\<lambda>psi. bNext ! i / psi) Perm) Tran =
              Inr (map2 (\<lambda>psi xi. bNext ! i / psi + xi) Perm Tran)"
    using assms(2) by (simp add: np_add_same_length map2_map_left)
  obtain d where d: "JumpToGrid mG pG (map2 (\<lambda>psi xi. bNext ! i / psi + xi) Perm Tran)
                (map (\<lambda>psi. pG ! j * psi) Perm) Probs = Inr d"
    using JumpToGrid_total [OF assms(4,5), of "map2 (\<lambda>psi xi. bNext ! i / psi + xi) Perm Tran"
        "map (\<lambda>psi. pG ! j * psi) Perm" Probs] assms(2,3) by auto
  have ld: "length d = length mG * length pG" using JumpToGrid_Inr [OF d] by simp
  have "column_value mG pG bNext Perm Tran Probs s NB i j =
                Inr (map2 (\<lambda>a b. s * a + (1 - s) * b) d NB)"
    using assms(1,6) ms d ld
    by (simp add: column_value_def Let_def np_add_same_length map2_map_map)
  then show ?thesis using d ld by blast
qed

lemma tran_loop_eq:
  "fold_err (\<lambda>i. fold_err (tran_column mG pG bNext Perm Tran Probs s NB i) [0..<length pG])
      [0..<length mG] T0 =
   fold_err (\<lambda>x T. case (case x of (i, j) \<Rightarrow> column_value mG pG bNext Perm Tran Probs s NB i j) of
                      Inl e \<Rightarrow> Inl e
                    | Inr v \<Rightarrow> set_col T (case x of (i, j) \<Rightarrow> i * length pG + j) v)
      (List.product [0..<length mG] [0..<length pG]) T0"
proof -
  have "(\<lambda>(i, j). tran_column mG pG bNext Perm Tran Probs s NB i j) =
        (\<lambda>x T. case (case x of (i, j) \<Rightarrow> column_value mG pG bNext Perm Tran Probs s NB i j) of
                      Inl e \<Rightarrow> Inl e
                    | Inr v \<Rightarrow> set_col T (case x of (i, j) \<Rightarrow> i * length pG + j) v)"
    by (auto simp: fun_eq_iff tran_column_def)
  then show ?thesis by (simp add: fold_err_product)
qed

lemma tran_loop_columns:
  assumes "fold_err (\<lambda>i. fold_err (tran_column mG pG bNext Perm Tran Probs s NB i) [0..<length pG])
      [0..<length mG] (replicate (length mG * length pG) (replicate (length mG * length pG) 0)) = Inr T"
    and "length NB = length mG * length pG"
  shows "wf_grid (length mG * length pG) (length mG * length pG) T \<and>
         (\<forall>i<length mG. \<forall>j<length pG.
            column_value mG pG bNext Perm Tran Probs s NB i j = Inr (col T (i * length pG + j)))"
proof -
  let ?G = "length mG * length pG"
  let ?val = "\<lambda>x. case x of (i, j) \<Rightarrow> column_value mG pG bNext Perm Tran Probs s NB i j"
  let ?key = "\<lambda>x. case x of (i, j) \<Rightarrow> i * length pG + j"
  let ?xs = "List.product [0..<length mG] [0..<length pG]"
  have f: "fold_err (\<lambda>x T. case ?val x of Inl e \<Rightarrow> Inl e | Inr v \<Rightarrow> set_col T (?key x) v) ?xs
             (replicate ?G (replicate ?G 0)) = Inr T"
    using assms(1) by (simp only: tran_loop_eq)
  have k: "\<forall>x\<in>set ?xs. ?key x < ?G" by (auto simp: cell_key_less)
  have l: "\<forall>x\<in>set ?xs. \<forall>v. ?val x = Inr v \<longrightarrow> length v = ?G"
  proof (intro ballI allI impI)
    fix x v assume xv: "x \<in> set ?xs" "?val x = Inr v"
    obtain i j where "x = (i, j)" by (cases x)
    then have "column_value mG pG bNext Perm Tran Probs s NB i j = Inr v"
      using xv(2) by simp
    from column_value_Inr [OF this assms(2)] obtain ms d where
      d: "JumpToGrid mG pG ms (map (\<lambda>psi. pG ! j * psi) Perm) Probs = Inr d"
      and v: "v = map2 (\<lambda>a b. s * a + (1 - s) * b) d NB" by blast
    show "length v = ?G" using JumpToGrid_Inr [OF d] assms(2) v by simp
  qed
  from fold_set_col [OF f wf_grid_replicate cell_key_distinct k l]
  have w: "wf_grid ?G ?G T" and c: "\<forall>x\<in>set ?xs. ?val x = Inr (col T (?key x))" by blast+
  have "column_value mG pG bNext Perm Tran Probs s NB i j = Inr (col T (i * length pG + j))"
    if "i < length mG" "j < length pG" for i j
    using c [rule_format, of "(i, j)"] that by simp
  then show ?thesis using w by blast
qed

lemma tran_loop_total:
  assumes "\<forall>i<length mG. \<forall>j<length pG. \<exists>v. column_value mG pG bNext Perm Tran Probs s NB i j = Inr v
              \<and> length v = length mG * length pG"
  shows "\<exists>T. fold_err (\<lambda>i. fold_err (tran_column mG pG bNext Perm Tran Probs s NB i) [0..<length pG])
      [0..<length mG] (replicate (length mG * length pG) (replicate (length mG * length pG) 0)) = Inr T"
proof -
  let ?G = "length mG * length pG"
  let ?val = "\<lambda>x. case x of (i, j) \<Rightarrow> column_value mG pG bNext Perm Tran Probs s NB i j"
  let ?key = "\<lambda>x. case x of (i, j) \<Rightarrow> i * length pG + j"
  let ?xs = "List.product [0..<length mG] [0..<length pG]"
  have k: "\<forall>x\<in>set ?xs. ?key x < ?G" by (auto simp: cell_key_less)
  have l: "\<forall>x\<in>set ?xs. \<exists>v. ?val x = Inr v \<and> length v = ?G"
    using assms by auto
  from fold_set_col_total [OF wf_grid_replicate k l]
  show ?thesis by (simp only: tran_loop_eq)
qed

lemma CalcTransitionMatrix_Inr:
  assumes "CalcTransitionMatrix self = Inr self'"
  shows "\<exists>mG pG c s rest NB T.
           Dist_mGrid self = Some mG \<and> Dist_pGrid self = Some pG \<and> cFunc self = Some c \<and>
           LivPrb self = s # rest \<and>
           JumpToGrid mG pG (X1 (IncShkDstn self)) (map (\<lambda>_. 1) (X1 (IncShkDstn self)))
             (pmf (IncShkDstn self)) = Inr NB \<and>
           self' = self\<lparr>aNext := Some (map (\<lambda>m. m - c m) mG), Cnow := Some (map c mG),
                        TranMatrix := Some T\<rparr> \<and>
           wf_grid (length mG * length pG) (length mG * length pG) T \<and>
           (\<forall>i<length mG. \<forall>j<length pG.
              column_value mG pG (map (\<lambda>a. Rfree self * a) (map (\<lambda>m. m - c m) mG))
                (X0 (IncShkDstn self)) (X1 (IncShkDstn self)) (pmf (IncShkDstn self)) s NB i j =
              Inr (col T (i * length pG + j)))"
proof -
  from assms obtain mG where mG: "Dist_mGrid self = Some mG"
    by (auto simp: CalcTransitionMatrix_def split: option.splits)
  from assms mG obtain pG where pG: "Dist_pGrid self = Some pG"
    by (auto simp: CalcTransitionMatrix_def split: option.splits)
  from assms mG pG obtain c where c: "cFunc self = Some c"
    by (auto simp: CalcTransitionMatrix_def split: option.splits)
  from assms mG pG c obtain s rest where s: "LivPrb self = s # rest"
    by (auto simp: CalcTransitionMatrix_def Let_def split: list.splits)
  from assms mG pG c s obtain NB where NB:
    "JumpToGrid mG pG (X1 (IncShkDstn self)) (map (\<lambda>_. 1) (X1 (IncShkDstn self)))
             (pmf (IncShkDstn self)) = Inr NB"
    by (auto simp: CalcTransitionMatrix_def Let_def split: sum.splits)
  from assms mG pG c s NB obtain T where
    T: "fold_err (\<lambda>i. fold_err (tran_column mG pG (map (\<lambda>a. Rfree self * a) (map (\<lambda>m. m - c m) mG))
                (X0 (IncShkDstn self)) (X1 (IncShkDstn self)) (pmf (IncShkDstn self)) s NB i) [0..<length pG])
      [0..<length mG] (replicate (length mG * length pG) (replicate (length mG * length pG) 0)) = Inr T"
    and self': "self' = self\<lparr>aNext := Some (map (\<lambda>m. m - c m) mG), Cnow := Some (map c mG),
                        TranMatrix := Some T\<rparr>"
    by (auto simp: CalcTransitionMatrix_def Let_def split: sum.splits)
  have lNB: "length NB = length mG * length pG" using JumpToGrid_Inr [OF NB] by simp
  from tran_loop_columns [OF T lNB] show ?thesis using mG pG c s NB self' by blast
qed

lemma CalcTransitionMatrix_total:
  assumes "Dist_mGrid self = Some mG" "Dist_pGrid self = Some pG" "cFunc self = Some c"
    and "mono_grid mG" "mono_grid pG" "LivPrb self = s # rest"
    and "length (X0 (IncShkDstn self)) = length (X1 (IncShkDstn self))"
    and "length (pmf (IncShkDstn self)) = length (X1 (IncShkDstn self))"
    and "0 \<notin> set (X0 (IncShkDstn self))"
  shows "\<exists>self'. CalcTransitionMatrix self = Inr self'"
proof -
  let ?Perm = "X0 (IncShkDstn self)" and ?Tran = "X1 (IncShkDstn self)" and ?Probs = "pmf (IncShkDstn self)"
  let ?bNext = "map (\<lambda>a. Rfree self * a) (map (\<lambda>m. m - c m) mG)"
  obtain NB where NB: "JumpToGrid mG pG ?Tran (map (\<lambda>_. 1) ?Tran) ?Probs = Inr NB"
    using JumpToGrid_total [OF assms(4,5), of ?Tran "map (\<lambda>_. 1) ?Tran" ?Probs] assms(8) by auto
  have lNB: "length NB = length mG * length pG" using JumpToGrid_Inr [OF NB] by simp
  have "\<exists>v. column_value mG pG ?bNext ?Perm ?Tran ?Probs s NB i j = Inr v \<and>
            length v = length mG * length pG" for i j
    using column_value_total [OF assms(9,7,8,4,5) lNB, of ?bNext i j s] lNB by auto
  then obtain T where "fold_err (\<lambda>i. fold_err (tran_column mG pG ?bNext ?Perm ?Tran ?Probs s NB i) [0..<length pG])
      [0..<length mG] (replicate (length mG * length pG) (replicate (length mG * length pG) 0)) = Inr T"
    using tran_loop_total [of mG pG ?bNext ?Perm ?Tran ?Probs s NB] by blast
  then show ?thesis
    using assms(1,2,3,6) NB by (simp add: CalcTransitionMatrix_def Let_def)
qed

lemma CalcTransitionMatrix_column:
  assumes "CalcTransitionMatrix self = Inr self'"
    and "Dist_mGrid self = Some mG" "Dist_pGrid self = Some pG" "cFunc self = Some c"
    and "LivPrb self = s # rest"
    and "length (X0 (IncShkDstn self)) = length (X1 (IncShkDstn self))"
    and "i < length mG" "j < length pG"
  shows "\<exists>T NB D. TranMatrix self' = Some T \<and>
           wf_grid (length mG * length pG) (length mG * length pG) T \<and>
           JumpToGrid mG pG (X1 (IncShkDstn self)) (map (\<lambda>_. 1) (X1 (IncShkDstn self)))
             (pmf (IncShkDstn self)) = Inr NB \<and>
           JumpToGrid mG pG
             (map2 (\<lambda>psi xi. Rfree self * (mG ! i - c (mG ! i)) / psi + xi)
                (X0 (IncShkDstn self)) (X1 (IncShkDstn self)))
             (map (\<lambda>psi. pG ! j * psi) (X0 (IncShkDstn self)))
             (pmf (IncShkDstn self)) = Inr D \<and>
           col T (i * length pG + j) = map2 (\<lambda>a b. s * a + (1 - s) * b) D NB"
proof -
  let ?Perm = "X0 (IncShkDstn self)" and ?Tran = "X1 (IncShkDstn self)" and ?Probs = "pmf (IncShkDstn self)"
  from CalcTransitionMatrix_Inr [OF assms(1)] assms(2-5)
  obtain NB T where NB: "JumpToGrid mG pG ?Tran (map (\<lambda>_. 1) ?Tran) ?Probs = Inr NB"
    and T: "TranMatrix self' = Some T" "wf_grid (length mG * length pG) (length mG * length pG) T"
    and cv: "\<forall>i<length mG. \<forall>j<length pG.
              column_value mG pG (map (\<lambda>a. Rfree self * a) (map (\<lambda>m. m - c m) mG))
                ?Perm ?Tran ?Probs s NB i j = Inr (col T (i * length pG + j))"
    by auto
  have lNB: "length NB = length mG * length pG" using JumpToGrid_Inr [OF NB] by simp
  from cv assms(7,8) have "column_value mG pG (map (\<lambda>a. Rfree self * a) (map (\<lambda>m. m - c m) mG))
                ?Perm ?Tran ?Probs s NB i j = Inr (col T (i * length pG + j))" by simp
  from column_value_Inr [OF this lNB] obtain ms d where
    ms: "np_add (map (\<lambda>psi. map (\<lambda>a. Rfree self * a) (map (\<lambda>m. m - c m) mG) ! i / psi) ?Perm) ?Tran = Inr ms"
    and d: "JumpToGrid mG pG ms (map (\<lambda>psi. pG ! j * psi) ?Perm) ?Probs = Inr d"
    and v: "col T (i * length pG + j) = map2 (\<lambda>a b. s * a + (1 - s) * b) d NB" by blast
  have "ms = map2 (\<lambda>psi xi. Rfree self * (mG ! i - c (mG ! i)) / psi + xi) ?Perm ?Tran"
    using ms assms(6,7) by (simp add: np_add_same_length map2_map_left)
  then show ?thesis using T NB d v by blast
qed

lemma JumpToGrid_nonneg:
  assumes "JumpToGrid mG pG ms ps prs = Inr out" "\<forall>p\<in>set prs. 0 \<le> p"
  shows "\<forall>x\<in>set out. 0 \<le> x"
proof
  fix x assume "x \<in> set out"
  then obtain k where k: "k < length out" "x = out ! k" by (auto simp: in_set_conv_nth)
  note ch = JumpToGrid_Inr [OF assms(1)]
  have len: "length out = length mG * length pG" and mono: "mono_grid mG" "mono_grid pG"
    and lp: "length ms \<le> length prs" using ch by simp_all
  have P: "0 < length pG" using k len by (cases "length pG") auto
  define r where "r = k div length pG"
  define c where "c = k mod length pG"
  have c: "c < length pG" using P by (simp add: c_def)
  have r: "r < length mG" using k(1) len P by (simp add: r_def less_mult_imp_div_less)
  have "k = r * length pG + c" by (simp add: r_def c_def)
  then have "x = cell_mass mG pG ms ps prs r c" using ch r c k(2) by simp
  also have "\<dots> \<ge> 0"
    unfolding cell_mass_def
  proof (rule sum_nonneg)
    fix i assume "i \<in> {..<length ms}"
    then have "0 \<le> prs ! i" using assms(2) lp by simp
    then show "0 \<le> prs ! i * point_weight (length mG) (weights_of mG (ms ! i)) r *
                  point_weight (length pG) (weights_of pG (ps ! i)) c"
      using corner_nonneg [OF mono(1)] corner_nonneg [OF mono(2)] by simp
  qed
  finally show "0 \<le> x" .
qed

lemma sum_list_convex:
  "length xs = length ys \<Longrightarrow>
   sum_list (map2 (\<lambda>a b. s * a + (1 - s) * b) xs ys) = s * sum_list xs + (1 - s) * sum_list (ys :: real list)"
  by (induction xs ys rule: list_induct2) (simp_all add: algebra_simps)

lemma convex_nonneg:
  assumes "\<forall>x\<in>set xs. 0 \<le> x" "\<forall>y\<in>set ys. 0 \<le> (y :: real)" "0 \<le> s" "s \<le> 1"
  shows "\<forall>z\<in>set (map2 (\<lambda>a b. s * a + (1 - s) * b) xs ys). 0 \<le> z"
proof
  fix z assume "z \<in> set (map2 (\<lambda>a b. s * a + (1 - s) * b) xs ys)"
  then obtain a b where ab: "(a, b) \<in> set (zip xs ys)" "z = s * a + (1 - s) * b" by auto
  then have "0 \<le> a" "0 \<le> b" using assms(1,2) by (auto dest: set_zip_leftD set_zip_rightD)
  then show "0 \<le> z" using ab(2) assms(3,4) by simp
qed

lemma nonneg_le_sum_list:
  "\<forall>x\<in>set xs. 0 \<le> (x :: real) \<Longrightarrow> x \<in> set xs \<Longrightarrow> x \<le> sum_list xs"
proof (induction xs)
  case Nil
  then show ?case by simp
next
  case (Cons a xs)
  have "0 \<le> sum_list xs" using Cons.prems(1) by (intro sum_list_nonneg) simp
  then show ?case using Cons by auto
qed

section \<open>Facts about the grid definition\<close>

lemma eq_None_truth_usable:
  "eq_None_truth a = (if usable_grid_arg a then Inr (a = PyNone) else Inl ValueError)"
  by (cases a) (simp_all add: eq_None_truth_def usable_grid_arg_def)

section \<open>Facts about the normalised real part\<close>

lemma Re_sum_list: "Re (sum_list zs) = sum_list (map Re zs)"
  by (induction zs) simp_all

lemma sum_list_map_divide:
  "sum_list (map (\<lambda>x. f x / s) xs) = sum_list (map f xs) / (s :: real)"
  by (induction xs) (simp_all add: add_divide_distrib)

lemma map2_map_right:
  "map2 h xs (map g ys) = map2 (\<lambda>x y. h x (g y)) xs ys"
  by (induction xs ys rule: list_induct2') auto

lemma row_times_normalised:
  "sum_list (map2 (\<lambda>a b. a * b) row (map (\<lambda>z. Re z / s) v)) =
   Re (sum_list (map2 (\<lambda>a b. complex_of_real a * b) row v)) / s"
proof -
  have "sum_list (map2 (\<lambda>a b. a * b) row (map (\<lambda>z. Re z / s) v)) =
        sum_list (map (\<lambda>(a, z). a * Re z / s) (zip row v))"
    by (simp add: map2_map_right)
  also have "\<dots> = sum_list (map (\<lambda>(a, z). a * Re z) (zip row v)) / s"
    using sum_list_map_divide [of "\<lambda>(a, z). a * Re z" s "zip row v"]
    by (simp add: case_prod_unfold)
  also have "sum_list (map (\<lambda>(a, z). a * Re z) (zip row v)) =
             Re (sum_list (map2 (\<lambda>a b. complex_of_real a * b) row v))"
    by (simp add: Re_sum_list comp_def case_prod_unfold)
  finally show ?thesis .
qed

lemma fixed_point_of_eigenvector:
  assumes "cmat_vec T v = v"
  shows "mat_vec T (map (\<lambda>z. Re z / s) v) = map (\<lambda>z. Re z / s) v"
proof (rule nth_equalityI)
  have l: "length T = length v" using assms by (metis cmat_vec_def length_map)
  show "length (mat_vec T (map (\<lambda>z. Re z / s) v)) = length (map (\<lambda>z. Re z / s) v)"
    using l by (simp add: mat_vec_def)
  fix r assume "r < length (mat_vec T (map (\<lambda>z. Re z / s) v))"
  then have r: "r < length T" by (simp add: mat_vec_def)
  have "cmat_vec T v ! r = v ! r" using assms by simp
  then have e: "sum_list (map2 (\<lambda>a b. complex_of_real a * b) (T ! r) v) = v ! r"
    using r by (simp add: cmat_vec_def)
  show "mat_vec T (map (\<lambda>z. Re z / s) v) ! r = map (\<lambda>z. Re z / s) v ! r"
    using r l by (simp add: mat_vec_def row_times_normalised e)
qed

lemma normalised_sum:
  "sum_list (map Re v) \<noteq> 0 \<Longrightarrow>
   sum_list (map (\<lambda>z. Re z / sum_list (map Re v)) v) = 1"
  using sum_list_map_divide [of Re "sum_list (map Re v)" v] by simp

section \<open>Properties of the grid projector\<close>

text \<open>
  Claim C2. For equal-length sequences \<open>m_vals\<close>, \<open>perm_vals\<close> and \<open>probs\<close>, the cells of the
  vector returned by \<open>JumpToGrid\<close> sum to the sum of the input probabilities; and on
  non-empty monotonic grids \<open>JumpToGrid\<close> does return a vector. Floats are read as exact
  reals, so the sums agree exactly.
\<close>
theorem JumpToGrid_preserves_mass:
  assumes "length perm_vals = length m_vals" "length probs = length m_vals"
  shows "(\<forall>out. JumpToGrid mGrid pGrid m_vals perm_vals probs = Inr out \<longrightarrow>
            sum_list out = sum_list probs) \<and>
         (mono_grid mGrid \<and> mono_grid pGrid \<longrightarrow>
            (\<exists>out. JumpToGrid mGrid pGrid m_vals perm_vals probs = Inr out))"
proof (intro conjI allI impI)
  fix out
  assume "JumpToGrid mGrid pGrid m_vals perm_vals probs = Inr out"
  then have "sum_list out = (\<Sum>i<length m_vals. probs ! i)" by (rule JumpToGrid_mass)
  then show "sum_list out = sum_list probs"
    by (simp add: sum_list_sum_lessThan assms(2))
next
  assume "mono_grid mGrid \<and> mono_grid pGrid"
  then show "\<exists>out. JumpToGrid mGrid pGrid m_vals perm_vals probs = Inr out"
    using assms by (intro JumpToGrid_total) auto
qed

theorem JumpToGrid_preserves_mass_witness:
  "JumpToGrid [0, 1, 2] [1, 2] [1/2, 3, - 1, 1] [3/2, 1, 2, 7] [1/4, 1/4, 1/4, 1/4] =
     Inr [1/16, 5/16, 1/16, 5/16, 1/4, 0] \<and>
   sum_list [1/16, 5/16, 1/16, 5/16, 1/4, 0 :: real] = sum_list [1/4, 1/4, 1/4, 1/4]"
proof -
  have e: "JumpToGrid [0, 1, 2] [1, 2] [1/2, 3, - 1, 1] [3/2, 1, 2, 7] [1/4, 1/4, 1/4, 1/4] =
     Inr [1/16, 5/16, 1/16, 5/16, 1/4, 0]"
    by code_simp
  have "length [3/2, 1, 2, 7 :: real] = length [1/2, 3, - 1, 1 :: real]"
       "length [1/4, 1/4, 1/4, 1/4 :: real] = length [1/2, 3, - 1, 1 :: real]"
    by simp_all
  from JumpToGrid_preserves_mass [OF this, of "[0, 1, 2]" "[1, 2]"] e
  have "sum_list [1/16, 5/16, 1/16, 5/16, 1/4, 0 :: real] = sum_list [1/4, 1/4, 1/4, 1/4]"
    by blast
  with e show ?thesis by blast
qed

text \<open>
  Claim C4. When every sample lies within the grid bounds in both dimensions (and the grids
  are increasing), \<open>JumpToGrid\<close> returns a distribution whose first moment in each dimension
  equals the probability-weighted first moment of the samples. The total mass is the same
  as well, so the normalised means agree whenever the mass is not zero.
\<close>

theorem JumpToGrid_preserves_means:
  assumes "sorted mGrid" "mGrid \<noteq> []" "sorted pGrid" "pGrid \<noteq> []"
    and "length perm_vals = length m_vals" "length probs = length m_vals"
    and "\<forall>v\<in>set m_vals. hd mGrid \<le> v \<and> v \<le> last mGrid"
    and "\<forall>v\<in>set perm_vals. hd pGrid \<le> v \<and> v \<le> last pGrid"
  shows "\<exists>out. JumpToGrid mGrid pGrid m_vals perm_vals probs = Inr out \<and>
           sum_list out = sum_list probs \<and>
           marginal_moment_m mGrid pGrid out = sample_moment probs m_vals \<and>
           marginal_moment_p mGrid pGrid out = sample_moment probs perm_vals"
proof -
  have "mono_grid mGrid" "mono_grid pGrid"
    using assms(1-4) by (simp_all add: mono_grid_def)
  then obtain out where out: "JumpToGrid mGrid pGrid m_vals perm_vals probs = Inr out"
    using JumpToGrid_total [of mGrid pGrid m_vals perm_vals probs] assms(5,6) by auto
  have "sum_list out = (\<Sum>i<length m_vals. probs ! i)" by (rule JumpToGrid_mass [OF out])
  then have 1: "sum_list out = sum_list probs"
    by (simp add: sum_list_sum_lessThan assms(6))
  have 2: "marginal_moment_m mGrid pGrid out = sample_moment probs m_vals"
    unfolding sample_moment_sum by (rule JumpToGrid_moment_m [OF out assms(1,7)])
  have "\<forall>i<length m_vals. hd pGrid \<le> perm_vals ! i \<and> perm_vals ! i \<le> last pGrid"
    using assms(5,8) by simp
  then have "marginal_moment_p mGrid pGrid out = (\<Sum>i<length m_vals. probs ! i * perm_vals ! i)"
    by (rule JumpToGrid_moment_p [OF out assms(3)])
  then have 3: "marginal_moment_p mGrid pGrid out = sample_moment probs perm_vals"
    by (simp add: sample_moment_sum assms(5))
  show ?thesis using out 1 2 3 by blast
qed

theorem JumpToGrid_preserves_means_witness:
  "JumpToGrid [0, 1, 2] [1, 2] [1/2, 2, 0, 1] [3/2, 1, 2, 2] [1/4, 1/4, 1/4, 1/4] =
     Inr [1/16, 5/16, 1/16, 5/16, 1/4, 0] \<and>
   marginal_moment_m [0, 1, 2] [1, 2] [1/16, 5/16, 1/16, 5/16, 1/4, 0] =
     sample_moment [1/4, 1/4, 1/4, 1/4] [1/2, 2, 0, 1] \<and>
   marginal_moment_p [0, 1, 2] [1, 2] [1/16, 5/16, 1/16, 5/16, 1/4, 0] =
     sample_moment [1/4, 1/4, 1/4, 1/4] [3/2, 1, 2, 2] \<and>
   sample_moment [1/4, 1/4, 1/4, 1/4] [1/2, 2, 0, 1] = 7/8 \<and>
   sample_moment [1/4, 1/4, 1/4, 1/4] [3/2, 1, 2, 2] = 13/8"
proof -
  have e: "JumpToGrid [0, 1, 2] [1, 2] [1/2, 2, 0, 1] [3/2, 1, 2, 2] [1/4, 1/4, 1/4, 1/4] =
     Inr [1/16, 5/16, 1/16, 5/16, 1/4, 0]"
    by code_simp
  have s: "sample_moment [1/4, 1/4, 1/4, 1/4] [1/2, 2, 0, 1] = 7/8"
    "sample_moment [1/4, 1/4, 1/4, 1/4] [3/2, 1, 2, 2] = 13/8"
    by code_simp+
  have "\<exists>out. JumpToGrid [0, 1, 2] [1, 2] [1/2, 2, 0, 1] [3/2, 1, 2, 2] [1/4, 1/4, 1/4, 1/4] = Inr out \<and>
           sum_list out = sum_list [1/4, 1/4, 1/4, 1/4] \<and>
           marginal_moment_m [0, 1, 2] [1, 2] out = sample_moment [1/4, 1/4, 1/4, 1/4] [1/2, 2, 0, 1] \<and>
           marginal_moment_p [0, 1, 2] [1, 2] out = sample_moment [1/4, 1/4, 1/4, 1/4] [3/2, 1, 2, 2]"
    by (rule JumpToGrid_preserves_means) simp_all
  with e s show ?thesis by auto
qed

text \<open>
  Claim C5. On strictly increasing grids, a sample whose value in a dimension is at or below
  the grid minimum gets lower and upper index 0 with weights 1.0 and 0.0, so its weight is 1
  on the minimum grid point and 0 on every other point; a sample at or above the grid maximum
  gets both indices on the last grid point with weights 1.0 and 0.0, so its weight is 1 on
  the maximum grid point and 0 elsewhere. These weights are the ones the result is made of:
  every cell \<open>(r, c)\<close> of the returned vector is the sum over the samples of the probability
  times the weight on point \<open>r\<close> of the first dimension times the weight on point \<open>c\<close> of the
  second, so each clamped sample puts its whole mass in that dimension on the boundary point,
  also in a call that mixes samples below, inside and above the grid. The output has exactly
  one cell per grid cell and keeps the whole mass: nothing is put outside the grid. When all
  samples of a call are at or below the minimum (at or above the maximum) of a dimension,
  every cell off the first (last) grid point of that dimension is zero.
\<close>

theorem JumpToGrid_clamps_at_bounds:
  assumes "sorted_wrt (<) mGrid" "mGrid \<noteq> []"
    and "sorted_wrt (<) pGrid" "pGrid \<noteq> []"
    and "length perm_vals = length m_vals" "length probs = length m_vals"
  shows "\<exists>mIndex pIndex out.
      grid_index m_vals mGrid = Inr mIndex \<and>
      grid_index perm_vals pGrid = Inr pIndex \<and>
      JumpToGrid mGrid pGrid m_vals perm_vals probs = Inr out \<and>
      length out = length mGrid * length pGrid \<and>
      sum_list out = sum_list probs \<and>
      (\<forall>r<length mGrid. \<forall>c<length pGrid.
         out ! (r * length pGrid + c) =
           sum_list (map (\<lambda>i. probs ! i *
               point_weight (length mGrid) (dim_weights mGrid (mIndex ! i) (m_vals ! i)) r *
               point_weight (length pGrid) (dim_weights pGrid (pIndex ! i) (perm_vals ! i)) c)
             [0..<length m_vals])) \<and>
      (\<forall>i<length m_vals. m_vals ! i \<le> hd mGrid \<longrightarrow>
         all_weight_on mGrid (dim_weights mGrid (mIndex ! i) (m_vals ! i)) 0 \<and>
         (\<forall>r<length mGrid.
            point_weight (length mGrid) (dim_weights mGrid (mIndex ! i) (m_vals ! i)) r =
              (if r = 0 then 1 else 0))) \<and>
      (\<forall>i<length m_vals. last mGrid \<le> m_vals ! i \<longrightarrow>
         all_weight_on mGrid (dim_weights mGrid (mIndex ! i) (m_vals ! i))
           (length mGrid - 1) \<and>
         (\<forall>r<length mGrid.
            point_weight (length mGrid) (dim_weights mGrid (mIndex ! i) (m_vals ! i)) r =
              (if r = length mGrid - 1 then 1 else 0))) \<and>
      (\<forall>i<length perm_vals. perm_vals ! i \<le> hd pGrid \<longrightarrow>
         all_weight_on pGrid (dim_weights pGrid (pIndex ! i) (perm_vals ! i)) 0 \<and>
         (\<forall>c<length pGrid.
            point_weight (length pGrid) (dim_weights pGrid (pIndex ! i) (perm_vals ! i)) c =
              (if c = 0 then 1 else 0))) \<and>
      (\<forall>i<length perm_vals. last pGrid \<le> perm_vals ! i \<longrightarrow>
         all_weight_on pGrid (dim_weights pGrid (pIndex ! i) (perm_vals ! i))
           (length pGrid - 1) \<and>
         (\<forall>c<length pGrid.
            point_weight (length pGrid) (dim_weights pGrid (pIndex ! i) (perm_vals ! i)) c =
              (if c = length pGrid - 1 then 1 else 0))) \<and>
      ((\<forall>v\<in>set m_vals. v \<le> hd mGrid) \<longrightarrow>
         (\<forall>r<length mGrid. \<forall>c<length pGrid.
            r \<noteq> 0 \<longrightarrow> out ! (r * length pGrid + c) = 0)) \<and>
      ((\<forall>v\<in>set m_vals. last mGrid \<le> v) \<longrightarrow>
         (\<forall>r<length mGrid. \<forall>c<length pGrid.
            r \<noteq> length mGrid - 1 \<longrightarrow> out ! (r * length pGrid + c) = 0)) \<and>
      ((\<forall>v\<in>set perm_vals. v \<le> hd pGrid) \<longrightarrow>
         (\<forall>r<length mGrid. \<forall>c<length pGrid.
            c \<noteq> 0 \<longrightarrow> out ! (r * length pGrid + c) = 0)) \<and>
      ((\<forall>v\<in>set perm_vals. last pGrid \<le> v) \<longrightarrow>
         (\<forall>r<length mGrid. \<forall>c<length pGrid.
            c \<noteq> length pGrid - 1 \<longrightarrow> out ! (r * length pGrid + c) = 0))"
proof -
  let ?mI = "map (cell_index mGrid) m_vals" and ?pI = "map (cell_index pGrid) perm_vals"
  have sm: "sorted mGrid" and sp: "sorted pGrid"
    using assms(1,3) by (simp_all add: strict_sorted_sorted)
  have mi: "grid_index m_vals mGrid = Inr ?mI"
    using sm assms(2) by (simp add: grid_index_Inr)
  have pi: "grid_index perm_vals pGrid = Inr ?pI"
    using sp assms(4) by (simp add: grid_index_Inr)
  have "mono_grid mGrid" "mono_grid pGrid"
    using sm sp assms(2,4) by (simp_all add: mono_grid_def)
  then obtain out where out: "JumpToGrid mGrid pGrid m_vals perm_vals probs = Inr out"
    using JumpToGrid_total [of mGrid pGrid m_vals perm_vals probs] assms(5,6) by auto
  note ch = JumpToGrid_Inr [OF out]
  have len: "length out = length mGrid * length pGrid" using ch by simp
  have cell: "out ! (r * length pGrid + c) = cell_mass mGrid pGrid m_vals perm_vals probs r c"
    if "r < length mGrid" "c < length pGrid" for r c
    using ch that by simp
  have "sum_list out = (\<Sum>i<length m_vals. probs ! i)" by (rule JumpToGrid_mass [OF out])
  then have mass: "sum_list out = sum_list probs"
    by (simp add: sum_list_sum_lessThan assms(6))
  have formula: "\<forall>r<length mGrid. \<forall>c<length pGrid.
         out ! (r * length pGrid + c) =
           sum_list (map (\<lambda>i. probs ! i *
               point_weight (length mGrid) (dim_weights mGrid (?mI ! i) (m_vals ! i)) r *
               point_weight (length pGrid) (dim_weights pGrid (?pI ! i) (perm_vals ! i)) c)
             [0..<length m_vals])"
  proof (intro allI impI)
    fix r c assume rc: "r < length mGrid" "c < length pGrid"
    have "cell_mass mGrid pGrid m_vals perm_vals probs r c =
          (\<Sum>i<length m_vals. probs ! i *
               point_weight (length mGrid) (dim_weights mGrid (?mI ! i) (m_vals ! i)) r *
               point_weight (length pGrid) (dim_weights pGrid (?pI ! i) (perm_vals ! i)) c)"
      unfolding cell_mass_def
      by (rule sum.cong [OF refl]) (use assms(5) in \<open>simp add: weights_of_def\<close>)
    then show "out ! (r * length pGrid + c) =
           sum_list (map (\<lambda>i. probs ! i *
               point_weight (length mGrid) (dim_weights mGrid (?mI ! i) (m_vals ! i)) r *
               point_weight (length pGrid) (dim_weights pGrid (?pI ! i) (perm_vals ! i)) c)
             [0..<length m_vals])"
      using cell [OF rc] by (simp add: sum_list_upt_lessThan)
  qed
  have w1: "\<forall>i<length m_vals. m_vals ! i \<le> hd mGrid \<longrightarrow>
         all_weight_on mGrid (dim_weights mGrid (?mI ! i) (m_vals ! i)) 0 \<and>
         (\<forall>r<length mGrid.
            point_weight (length mGrid) (dim_weights mGrid (?mI ! i) (m_vals ! i)) r =
              (if r = 0 then 1 else 0))"
    using weights_on_bottom [OF assms(1,2)] corner_bottom [OF assms(1,2)]
    by (simp add: weights_of_def)
  have w2: "\<forall>i<length m_vals. last mGrid \<le> m_vals ! i \<longrightarrow>
         all_weight_on mGrid (dim_weights mGrid (?mI ! i) (m_vals ! i)) (length mGrid - 1) \<and>
         (\<forall>r<length mGrid.
            point_weight (length mGrid) (dim_weights mGrid (?mI ! i) (m_vals ! i)) r =
              (if r = length mGrid - 1 then 1 else 0))"
    using weights_on_top [OF assms(2)] corner_top [OF assms(2)]
    by (simp add: weights_of_def)
  have w3: "\<forall>i<length perm_vals. perm_vals ! i \<le> hd pGrid \<longrightarrow>
         all_weight_on pGrid (dim_weights pGrid (?pI ! i) (perm_vals ! i)) 0 \<and>
         (\<forall>c<length pGrid.
            point_weight (length pGrid) (dim_weights pGrid (?pI ! i) (perm_vals ! i)) c =
              (if c = 0 then 1 else 0))"
    using weights_on_bottom [OF assms(3,4)] corner_bottom [OF assms(3,4)]
    by (simp add: weights_of_def)
  have w4: "\<forall>i<length perm_vals. last pGrid \<le> perm_vals ! i \<longrightarrow>
         all_weight_on pGrid (dim_weights pGrid (?pI ! i) (perm_vals ! i)) (length pGrid - 1) \<and>
         (\<forall>c<length pGrid.
            point_weight (length pGrid) (dim_weights pGrid (?pI ! i) (perm_vals ! i)) c =
              (if c = length pGrid - 1 then 1 else 0))"
    using weights_on_top [OF assms(4)] corner_top [OF assms(4)]
    by (simp add: weights_of_def)
  have o1: "out ! (r * length pGrid + c) = 0"
    if "\<forall>v\<in>set m_vals. v \<le> hd mGrid" "r < length mGrid" "c < length pGrid" "r \<noteq> 0" for r c
    unfolding cell [OF that(2,3)]
    by (rule cell_mass_zero_m) (use that corner_bottom [OF assms(1,2)] in simp)
  have o2: "out ! (r * length pGrid + c) = 0"
    if "\<forall>v\<in>set m_vals. last mGrid \<le> v" "r < length mGrid" "c < length pGrid"
       "r \<noteq> length mGrid - 1" for r c
    unfolding cell [OF that(2,3)]
    by (rule cell_mass_zero_m) (use that corner_top [OF assms(2)] in simp)
  have o3: "out ! (r * length pGrid + c) = 0"
    if "\<forall>v\<in>set perm_vals. v \<le> hd pGrid" "r < length mGrid" "c < length pGrid" "c \<noteq> 0" for r c
    unfolding cell [OF that(2,3)]
    by (rule cell_mass_zero_p) (use that assms(5) corner_bottom [OF assms(3,4)] in simp)
  have o4: "out ! (r * length pGrid + c) = 0"
    if "\<forall>v\<in>set perm_vals. last pGrid \<le> v" "r < length mGrid" "c < length pGrid"
       "c \<noteq> length pGrid - 1" for r c
    unfolding cell [OF that(2,3)]
    by (rule cell_mass_zero_p) (use that assms(5) corner_top [OF assms(4)] in simp)
  show ?thesis
    apply (rule exI [of _ ?mI], rule exI [of _ ?pI], rule exI [of _ out])
    apply (intro conjI)
    apply (rule mi)
    apply (rule pi)
    apply (rule out)
    apply (rule len)
    apply (rule mass)
    apply (rule formula)
    apply (rule w1)
    apply (rule w2)
    apply (rule w3)
    apply (rule w4)
    using o1 apply blast
    using o2 apply blast
    using o3 apply blast
    using o4 apply blast
    done
qed


theorem JumpToGrid_clamps_at_bounds_witness:
  "JumpToGrid [0, 1, 2] [1, 2] [- 1, 0] [0, 1/2] [1/2, 1/2] = Inr [1, 0, 0, 0, 0, 0] \<and>
   grid_index [- 1, 0] [0, 1, 2] = Inr [- 1, - 1] \<and>
   all_weight_on [0, 1, 2] (dim_weights [0, 1, 2] (- 1) (- 1)) 0 \<and>
   [1, 0, 0, 0, 0, 0 :: real] ! (1 * 2 + 0) = 0 \<and>
   [1, 0, 0, 0, 0, 0 :: real] ! (0 * 2 + 1) = 0 \<and>
   JumpToGrid [0, 1, 2] [1, 2] [2, 3] [2, 5] [1/2, 1/2] = Inr [0, 0, 0, 0, 0, 1] \<and>
   grid_index [2, 5] [1, 2] = Inr [1, 1] \<and>
   all_weight_on [1, 2] (dim_weights [1, 2] 1 5) 1 \<and>
   [0, 0, 0, 0, 0, 1 :: real] ! (1 * 2 + 1) = 0 \<and>
   JumpToGrid [0, 1, 2] [1] [- 1, 3] [1, 1] [1/2, 1/2] = Inr [1/2, 0, 1/2] \<and>
   grid_index [- 1, 3] [0, 1, 2] = Inr [- 1, 2] \<and>
   point_weight 3 (dim_weights [0, 1, 2] (- 1) (- 1)) 0 = 1 \<and>
   point_weight 3 (dim_weights [0, 1, 2] (- 1) (- 1)) 2 = 0 \<and>
   point_weight 3 (dim_weights [0, 1, 2] 2 3) 0 = 0 \<and>
   point_weight 3 (dim_weights [0, 1, 2] 2 3) 2 = 1 \<and>
   [1/2, 0, 1/2 :: real] ! (2 * 1 + 0) =
     sum_list (map (\<lambda>i. [1/2, 1/2] ! i *
         point_weight 3 (dim_weights [0, 1, 2] ([- 1, 2] ! i) ([- 1, 3] ! i)) 2 *
         point_weight 1 (dim_weights [1] ([0, 0] ! i) ([1, 1] ! i)) 0) [0..<2])"
proof -
  have lo: "JumpToGrid [0, 1, 2] [1, 2] [- 1, 0] [0, 1/2] [1/2, 1/2] = Inr [1, 0, 0, 0, 0, 0]"
    and lo_i: "grid_index [- 1, 0] [0, 1, 2] = Inr [- 1, - 1]"
    and hi: "JumpToGrid [0, 1, 2] [1, 2] [2, 3] [2, 5] [1/2, 1/2] = Inr [0, 0, 0, 0, 0, 1]"
    and hi_i: "grid_index [2, 5] [1, 2] = Inr [1, 1]"
    and mx: "JumpToGrid [0, 1, 2] [1] [- 1, 3] [1, 1] [1/2, 1/2] = Inr [1/2, 0, 1/2]"
    and mx_i: "grid_index [- 1, 3] [0, 1, 2] = Inr [- 1, 2]"
    and mx_p: "grid_index [1, 1] [1] = Inr [0, 0]"
    by code_simp+
  have g: "sorted_wrt (<) [0, 1, 2 :: real]" "[0, 1, 2 :: real] \<noteq> []"
    "sorted_wrt (<) [1, 2 :: real]" "[1, 2 :: real] \<noteq> []"
    by simp_all
  have l1: "length [0, 1/2 :: real] = length [- 1, 0 :: real]"
    "length [1/2, 1/2 :: real] = length [- 1, 0 :: real]" by simp_all
  have g1: "sorted_wrt (<) [1 :: real]" "[1 :: real] \<noteq> []" by simp_all
  have l3: "length [1, 1 :: real] = length [- 1, 3 :: real]"
    "length [1/2, 1/2 :: real] = length [- 1, 3 :: real]" by simp_all
  from JumpToGrid_clamps_at_bounds [OF g(1,2) g1 l3]
  have f: "\<forall>r<length [0, 1, 2 :: real]. \<forall>c<length [1 :: real].
         [1/2, 0, 1/2 :: real] ! (r * length [1 :: real] + c) =
           sum_list (map (\<lambda>i. [1/2, 1/2] ! i *
               point_weight (length [0, 1, 2 :: real])
                 (dim_weights [0, 1, 2] ([- 1, 2] ! i) ([- 1, 3] ! i)) r *
               point_weight (length [1 :: real]) (dim_weights [1] ([0, 0] ! i) ([1, 1] ! i)) c)
             [0..<length [- 1, 3 :: real]])"
    and lo3: "\<forall>i<length [- 1, 3 :: real]. [- 1, 3] ! i \<le> hd [0, 1, 2 :: real] \<longrightarrow>
         all_weight_on [0, 1, 2] (dim_weights [0, 1, 2] ([- 1, 2] ! i) ([- 1, 3] ! i)) 0 \<and>
         (\<forall>r<length [0, 1, 2 :: real].
            point_weight (length [0, 1, 2 :: real])
              (dim_weights [0, 1, 2] ([- 1, 2] ! i) ([- 1, 3] ! i)) r = (if r = 0 then 1 else 0))"
    and hi3: "\<forall>i<length [- 1, 3 :: real]. last [0, 1, 2 :: real] \<le> [- 1, 3] ! i \<longrightarrow>
         all_weight_on [0, 1, 2] (dim_weights [0, 1, 2] ([- 1, 2] ! i) ([- 1, 3] ! i))
           (length [0, 1, 2 :: real] - 1) \<and>
         (\<forall>r<length [0, 1, 2 :: real].
            point_weight (length [0, 1, 2 :: real])
              (dim_weights [0, 1, 2] ([- 1, 2] ! i) ([- 1, 3] ! i)) r =
              (if r = length [0, 1, 2 :: real] - 1 then 1 else 0))"
    unfolding mx mx_i mx_p by auto
  have len3: "length [0, 1, 2 :: real] = 3" by simp
  have a1: "\<forall>r<3. point_weight 3 (dim_weights [0, 1, 2] (- 1) (- 1)) r = (if r = 0 then 1 else 0)"
    using lo3 [rule_format, of 0] unfolding len3 by simp
  have a2: "\<forall>r<3. point_weight 3 (dim_weights [0, 1, 2] 2 3) r = (if r = 3 - 1 then 1 else 0)"
    using hi3 [rule_format, of 1] unfolding len3 by simp
  have m1: "point_weight 3 (dim_weights [0, 1, 2] (- 1) (- 1)) 0 = 1"
    "point_weight 3 (dim_weights [0, 1, 2] (- 1) (- 1)) 2 = 0"
    using a1 [rule_format, of 0] a1 [rule_format, of 2] by simp_all
  have m2: "point_weight 3 (dim_weights [0, 1, 2] 2 3) 0 = 0"
    "point_weight 3 (dim_weights [0, 1, 2] 2 3) 2 = 1"
    using a2 [rule_format, of 0] a2 [rule_format, of 2] by simp_all
  have m3: "[1/2, 0, 1/2 :: real] ! (2 * 1 + 0) =
     sum_list (map (\<lambda>i. [1/2, 1/2] ! i *
         point_weight 3 (dim_weights [0, 1, 2] ([- 1, 2] ! i) ([- 1, 3] ! i)) 2 *
         point_weight 1 (dim_weights [1] ([0, 0] ! i) ([1, 1] ! i)) 0) [0..<2])"
  proof -
    have l1: "length [1 :: real] = 1" "length [- 1, 3 :: real] = 2" by simp_all
    show ?thesis by (rule f [rule_format, of 2 0, unfolded len3 l1]) simp_all
  qed
  have l2: "length [2, 5 :: real] = length [2, 3 :: real]"
    "length [1/2, 1/2 :: real] = length [2, 3 :: real]" by simp_all
  from JumpToGrid_clamps_at_bounds [OF g l1]
  have a: "(\<forall>i<length [- 1, 0 :: real]. [- 1, 0] ! i \<le> hd [0, 1, 2 :: real] \<longrightarrow>
         all_weight_on [0, 1, 2] (dim_weights [0, 1, 2] ([- 1, - 1] ! i) ([- 1, 0] ! i)) 0)"
    and b: "(\<forall>v\<in>set [- 1, 0 :: real]. v \<le> hd [0, 1, 2 :: real]) \<longrightarrow>
         (\<forall>r<length [0, 1, 2 :: real]. \<forall>c<length [1, 2 :: real].
            r \<noteq> 0 \<longrightarrow> [1, 0, 0, 0, 0, 0 :: real] ! (r * length [1, 2 :: real] + c) = 0)"
    and c: "(\<forall>v\<in>set [0, 1/2 :: real]. v \<le> hd [1, 2 :: real]) \<longrightarrow>
         (\<forall>r<length [0, 1, 2 :: real]. \<forall>c<length [1, 2 :: real].
            c \<noteq> 0 \<longrightarrow> [1, 0, 0, 0, 0, 0 :: real] ! (r * length [1, 2 :: real] + c) = 0)"
    unfolding lo lo_i by auto
  from JumpToGrid_clamps_at_bounds [OF g l2]
  have d: "(\<forall>i<length [2, 5 :: real]. last [1, 2 :: real] \<le> [2, 5] ! i \<longrightarrow>
         all_weight_on [1, 2] (dim_weights [1, 2] ([1, 1] ! i) ([2, 5] ! i)) (length [1, 2 :: real] - 1))"
    and e: "(\<forall>v\<in>set [2, 3 :: real]. last [0, 1, 2 :: real] \<le> v) \<longrightarrow>
         (\<forall>r<length [0, 1, 2 :: real]. \<forall>c<length [1, 2 :: real].
            r \<noteq> length [0, 1, 2 :: real] - 1 \<longrightarrow> [0, 0, 0, 0, 0, 1 :: real] ! (r * length [1, 2 :: real] + c) = 0)"
    unfolding hi hi_i by auto
  have 1: "all_weight_on [0, 1, 2] (dim_weights [0, 1, 2] (- 1) (- 1)) 0"
    using a [rule_format, of 0] by simp
  have 2: "[1, 0, 0, 0, 0, 0 :: real] ! (1 * 2 + 0) = 0"
    using b [rule_format, of 1 0] by simp
  have 3: "[1, 0, 0, 0, 0, 0 :: real] ! (0 * 2 + 1) = 0"
    using c [rule_format, of 0 1] by simp
  have 4: "all_weight_on [1, 2] (dim_weights [1, 2] 1 5) 1"
    using d [rule_format, of 1] by simp
  have 5: "[0, 0, 0, 0, 0, 1 :: real] ! (1 * 2 + 1) = 0"
    using e [rule_format, of 1 1] by simp
  show ?thesis using lo lo_i hi hi_i 1 2 3 4 5 mx mx_i m1 m2 m3 by blast
qed

text \<open>
  Claim C6. On strictly increasing grids, a single sample of probability 1 that sits on the
  grid point \<open>(k, j)\<close> is projected to the one-hot distribution at cell \<open>(k, j)\<close>; and a
  sample at the midpoint of two adjacent grid points of one dimension (on a grid point of the
  other) puts exactly one half on each of the two neighbouring cells. The midpoint split needs
  no uniform spacing: it holds between any two adjacent grid points.
\<close>

theorem JumpToGrid_exact_on_grid_and_midpoint:
  assumes "sorted_wrt (<) mGrid" "sorted_wrt (<) pGrid"
    and "k < length mGrid" "j < length pGrid"
  shows "(\<exists>out. JumpToGrid mGrid pGrid [mGrid ! k] [pGrid ! j] [1] = Inr out \<and>
            length out = length mGrid * length pGrid \<and>
            (\<forall>r<length mGrid. \<forall>c<length pGrid.
               out ! (r * length pGrid + c) = (if r = k \<and> c = j then 1 else 0))) \<and>
         (Suc k < length mGrid \<longrightarrow>
          (\<exists>out. JumpToGrid mGrid pGrid
                    [(mGrid ! k + mGrid ! Suc k) / 2] [pGrid ! j] [1] = Inr out \<and>
            length out = length mGrid * length pGrid \<and>
            (\<forall>r<length mGrid. \<forall>c<length pGrid.
               out ! (r * length pGrid + c) =
                 (if (r = k \<or> r = Suc k) \<and> c = j then 1 / 2 else 0)))) \<and>
         (Suc j < length pGrid \<longrightarrow>
          (\<exists>out. JumpToGrid mGrid pGrid
                    [mGrid ! k] [(pGrid ! j + pGrid ! Suc j) / 2] [1] = Inr out \<and>
            length out = length mGrid * length pGrid \<and>
            (\<forall>r<length mGrid. \<forall>c<length pGrid.
               out ! (r * length pGrid + c) =
                 (if r = k \<and> (c = j \<or> c = Suc j) then 1 / 2 else 0))))"
proof -
  have ne: "mGrid \<noteq> []" "pGrid \<noteq> []" using assms(3,4) by auto
  note single = JumpToGrid_single [OF assms(1) ne(1) assms(2) ne(2)]
  have 1: "\<exists>out. JumpToGrid mGrid pGrid [mGrid ! k] [pGrid ! j] [1] = Inr out \<and>
            length out = length mGrid * length pGrid \<and>
            (\<forall>r<length mGrid. \<forall>c<length pGrid.
               out ! (r * length pGrid + c) = (if r = k \<and> c = j then 1 else 0))"
    using single [of "mGrid ! k" "pGrid ! j" 1]
    by (auto simp: corner_on_grid [OF assms(1,3)] corner_on_grid [OF assms(2,4)])
  have 2: "\<exists>out. JumpToGrid mGrid pGrid
                    [(mGrid ! k + mGrid ! Suc k) / 2] [pGrid ! j] [1] = Inr out \<and>
            length out = length mGrid * length pGrid \<and>
            (\<forall>r<length mGrid. \<forall>c<length pGrid.
               out ! (r * length pGrid + c) =
                 (if (r = k \<or> r = Suc k) \<and> c = j then 1 / 2 else 0))"
    if "Suc k < length mGrid"
    using single [of "(mGrid ! k + mGrid ! Suc k) / 2" "pGrid ! j" 1]
    by (auto simp: corner_midpoint [OF assms(1) that] corner_on_grid [OF assms(2,4)])
  have 3: "\<exists>out. JumpToGrid mGrid pGrid
                    [mGrid ! k] [(pGrid ! j + pGrid ! Suc j) / 2] [1] = Inr out \<and>
            length out = length mGrid * length pGrid \<and>
            (\<forall>r<length mGrid. \<forall>c<length pGrid.
               out ! (r * length pGrid + c) =
                 (if r = k \<and> (c = j \<or> c = Suc j) then 1 / 2 else 0))"
    if "Suc j < length pGrid"
    using single [of "mGrid ! k" "(pGrid ! j + pGrid ! Suc j) / 2" 1]
    by (auto simp: corner_midpoint [OF assms(2) that] corner_on_grid [OF assms(1,3)])
  show ?thesis using 1 2 3 by blast
qed

theorem JumpToGrid_exact_on_grid_and_midpoint_witness:
  "JumpToGrid [0, 5, 10] [1, 2] [5] [1] [1] = Inr [0, 0, 1, 0, 0, 0] \<and>
   JumpToGrid [0, 5, 10] [1, 2] [15/2] [1] [1] = Inr [0, 0, 1/2, 0, 1/2, 0] \<and>
   JumpToGrid [0, 5, 10] [1, 2] [5] [3/2] [1] = Inr [0, 0, 1/2, 1/2, 0, 0] \<and>
   [0, 0, 1, 0, 0, 0 :: real] ! (1 * 2 + 0) = 1 \<and>
   [0, 0, 1/2, 0, 1/2, 0 :: real] ! (2 * 2 + 0) = 1/2 \<and>
   [0, 0, 1/2, 1/2, 0, 0 :: real] ! (1 * 2 + 1) = 1/2"
proof -
  have e: "JumpToGrid [0, 5, 10] [1, 2] [5] [1] [1] = Inr [0, 0, 1, 0, 0, 0]"
    "JumpToGrid [0, 5, 10] [1, 2] [15/2] [1] [1] = Inr [0, 0, 1/2, 0, 1/2, 0]"
    "JumpToGrid [0, 5, 10] [1, 2] [5] [3/2] [1] = Inr [0, 0, 1/2, 1/2, 0, 0]"
    by code_simp+
  have g: "sorted_wrt (<) [0, 5, 10 :: real]" "sorted_wrt (<) [1, 2 :: real]"
    "1 < length [0, 5, 10 :: real]" "0 < length [1, 2 :: real]"
    by simp_all
  have n: "[0, 5, 10 :: real] ! 1 = 5" "[1, 2 :: real] ! 0 = 1"
    "([0, 5, 10 :: real] ! 1 + [0, 5, 10] ! Suc 1) / 2 = 15/2"
    "([1, 2 :: real] ! 0 + [1, 2] ! Suc 0) / 2 = 3/2"
    "Suc 1 < length [0, 5, 10 :: real]" "Suc 0 < length [1, 2 :: real]"
    by simp_all
  from JumpToGrid_exact_on_grid_and_midpoint [OF g]
  have a: "\<forall>r<length [0, 5, 10 :: real]. \<forall>c<length [1, 2 :: real].
               [0, 0, 1, 0, 0, 0 :: real] ! (r * length [1, 2 :: real] + c) = (if r = 1 \<and> c = 0 then 1 else 0)"
    and b: "\<forall>r<length [0, 5, 10 :: real]. \<forall>c<length [1, 2 :: real].
               [0, 0, 1/2, 0, 1/2, 0 :: real] ! (r * length [1, 2 :: real] + c) =
                 (if (r = 1 \<or> r = Suc 1) \<and> c = 0 then 1 / 2 else 0)"
    and c: "\<forall>r<length [0, 5, 10 :: real]. \<forall>c<length [1, 2 :: real].
               [0, 0, 1/2, 1/2, 0, 0 :: real] ! (r * length [1, 2 :: real] + c) =
                 (if r = 1 \<and> (c = 0 \<or> c = Suc 0) then 1 / 2 else 0)"
    unfolding n using n(5,6) e by auto
  have 1: "[0, 0, 1, 0, 0, 0 :: real] ! (1 * 2 + 0) = 1"
    using a [rule_format, of 1 0] by simp
  have 2: "[0, 0, 1/2, 0, 1/2, 0 :: real] ! (2 * 2 + 0) = 1/2"
    using b [rule_format, of 2 0] by simp
  have 3: "[0, 0, 1/2, 1/2, 0, 0 :: real] ! (1 * 2 + 1) = 1/2"
    using c [rule_format, of 1 1] by simp
  show ?thesis using e 1 2 3 by blast
qed

section \<open>Properties of the transition matrix\<close>

text \<open>
  Claim C3. For every joint grid cell \<open>(i, j)\<close>, \<open>CalcTransitionMatrix\<close> sets the column with
  linear index \<open>i * len(pGrid) + j\<close> to \<open>s * JumpToGrid(m', p', probs) + (1 - s) * NewBornDist\<close>,
  where for each shock outcome \<open>m' = R * (m_i - cFunc(m_i)) / psi + xi\<close> and
  \<open>p' = pGrid[j] * psi\<close>, and \<open>NewBornDist\<close> is the one projection of the transitory shocks
  with all-ones permanent income. The shock arrays have one entry per outcome and no
  permanent shock is zero; the grids are non-empty and monotonic, so the method returns.
\<close>

theorem CalcTransitionMatrix_columns:
  assumes "Dist_mGrid self = Some mGrid" "Dist_pGrid self = Some pGrid" "cFunc self = Some c"
    and "mono_grid mGrid" "mono_grid pGrid" "LivPrb self = s # rest"
    and "length (X0 (IncShkDstn self)) = length (X1 (IncShkDstn self))"
    and "length (pmf (IncShkDstn self)) = length (X1 (IncShkDstn self))"
    and "0 \<notin> set (X0 (IncShkDstn self))"
    and "i < length mGrid" "j < length pGrid"
  shows "\<exists>self' T NewBornDist D.
           CalcTransitionMatrix self = Inr self' \<and> TranMatrix self' = Some T \<and>
           JumpToGrid mGrid pGrid (X1 (IncShkDstn self)) (map (\<lambda>_. 1) (X1 (IncShkDstn self)))
             (pmf (IncShkDstn self)) = Inr NewBornDist \<and>
           JumpToGrid mGrid pGrid
             (map2 (\<lambda>psi xi. Rfree self * (mGrid ! i - c (mGrid ! i)) / psi + xi)
                (X0 (IncShkDstn self)) (X1 (IncShkDstn self)))
             (map (\<lambda>psi. pGrid ! j * psi) (X0 (IncShkDstn self)))
             (pmf (IncShkDstn self)) = Inr D \<and>
           col T (i * length pGrid + j) = map2 (\<lambda>a b. s * a + (1 - s) * b) D NewBornDist"
proof -
  obtain self' where r: "CalcTransitionMatrix self = Inr self'"
    using CalcTransitionMatrix_total [OF assms(1-9)] by blast
  from CalcTransitionMatrix_column [OF r assms(1-3,6,7,10,11)] r
  show ?thesis by blast
qed

theorem CalcTransitionMatrix_columns_witness:
  "(\<exists>self' T. CalcTransitionMatrix example_agent = Inr self' \<and> TranMatrix self' = Some T \<and>
      col T (2 * 2 + 0) =
        map2 (\<lambda>a b. 3 / 4 * a + (1 - 3 / 4) * b) [0, 0, 1 / 2, 1 / 2, 0, 0] [3 / 4, 0, 1 / 4, 0, 0, 0]) \<and>
   JumpToGrid [0, 5, 10] [1, 2] [0, 5 / 2] [1, 1] [1 / 2, 1 / 2] = Inr [3 / 4, 0, 1 / 4, 0, 0, 0] \<and>
   JumpToGrid [0, 5, 10] [1, 2] [5, 5] [1, 2] [1 / 2, 1 / 2] = Inr [0, 0, 1 / 2, 1 / 2, 0, 0]"
proof -
  have nb: "JumpToGrid [0, 5, 10] [1, 2] [0, 5 / 2] [1, 1] [1 / 2, 1 / 2] = Inr [3 / 4, 0, 1 / 4, 0, 0, 0]"
    and d: "JumpToGrid [0, 5, 10] [1, 2] [5, 5] [1, 2] [1 / 2, 1 / 2] = Inr [0, 0, 1 / 2, 1 / 2, 0, 0]"
    by code_simp+
  have h: "Dist_mGrid example_agent = Some [0, 5, 10]" "Dist_pGrid example_agent = Some [1, 2]"
    "cFunc example_agent = Some (\<lambda>m. m / 2)" "mono_grid [0, 5, 10]" "mono_grid [1, 2]"
    "LivPrb example_agent = 3 / 4 # []"
    "length (X0 (IncShkDstn example_agent)) = length (X1 (IncShkDstn example_agent))"
    "length (pmf (IncShkDstn example_agent)) = length (X1 (IncShkDstn example_agent))"
    "0 \<notin> set (X0 (IncShkDstn example_agent))"
    "2 < length [0, 5, 10 :: real]" "0 < length [1, 2 :: real]"
    by (simp_all add: example_agent_def mono_grid_def)
  from CalcTransitionMatrix_columns [OF h]
  obtain self' T NewBornDist D where
    1: "CalcTransitionMatrix example_agent = Inr self'" "TranMatrix self' = Some T"
    and 2: "JumpToGrid [0, 5, 10] [1, 2] (X1 (IncShkDstn example_agent))
              (map (\<lambda>_. 1) (X1 (IncShkDstn example_agent))) (pmf (IncShkDstn example_agent)) = Inr NewBornDist"
    and 3: "JumpToGrid [0, 5, 10] [1, 2]
             (map2 (\<lambda>psi xi. Rfree example_agent * ([0, 5, 10] ! 2 - [0, 5, 10] ! 2 / 2) / psi + xi)
                (X0 (IncShkDstn example_agent)) (X1 (IncShkDstn example_agent)))
             (map (\<lambda>psi. [1, 2] ! 0 * psi) (X0 (IncShkDstn example_agent)))
             (pmf (IncShkDstn example_agent)) = Inr D"
    and 4: "col T (2 * length [1, 2 :: real] + 0) = map2 (\<lambda>a b. 3 / 4 * a + (1 - 3 / 4) * b) D NewBornDist"
    by blast
  have "NewBornDist = [3 / 4, 0, 1 / 4, 0, 0, 0]"
    using 2 nb by (simp add: example_agent_def)
  moreover have "D = [0, 0, 1 / 2, 1 / 2, 0, 0]"
    using 3 d by (simp add: example_agent_def)
  ultimately have "col T (2 * 2 + 0) =
        map2 (\<lambda>a b. 3 / 4 * a + (1 - 3 / 4) * b) [0, 0, 1 / 2, 1 / 2, 0, 0] [3 / 4, 0, 1 / 4, 0, 0, 0]"
    using 4 by simp
  with 1 nb d show ?thesis by blast
qed

text \<open>
  Claim C1. With non-negative shock probabilities that sum to 1 and a survival probability
  in \<open>[0, 1]\<close>, \<open>CalcTransitionMatrix\<close> returns a square matrix over the joint grid in which
  every column has all its entries in \<open>[0, 1]\<close> and sums to 1. Floats are read as exact reals.
\<close>

theorem CalcTransitionMatrix_column_stochastic:
  assumes "Dist_mGrid self = Some mGrid" "Dist_pGrid self = Some pGrid" "cFunc self = Some c"
    and "mono_grid mGrid" "mono_grid pGrid"
    and "LivPrb self = s # rest" "0 \<le> s" "s \<le> 1"
    and "length (X0 (IncShkDstn self)) = length (pmf (IncShkDstn self))"
    and "length (X1 (IncShkDstn self)) = length (pmf (IncShkDstn self))"
    and "0 \<notin> set (X0 (IncShkDstn self))"
    and "\<forall>p\<in>set (pmf (IncShkDstn self)). 0 \<le> p" "sum_list (pmf (IncShkDstn self)) = 1"
  shows "\<exists>self' T. CalcTransitionMatrix self = Inr self' \<and> TranMatrix self' = Some T \<and>
           length T = length mGrid * length pGrid \<and>
           (\<forall>k<length mGrid * length pGrid.
              length (col T k) = length mGrid * length pGrid \<and>
              (\<forall>x\<in>set (col T k). 0 \<le> x \<and> x \<le> 1) \<and>
              sum_list (col T k) = 1)"
proof -
  let ?Perm = "X0 (IncShkDstn self)" and ?Tran = "X1 (IncShkDstn self)" and ?Probs = "pmf (IncShkDstn self)"
  have l: "length ?Perm = length ?Tran" "length ?Probs = length ?Tran" using assms(9,10) by simp_all
  obtain self' where r: "CalcTransitionMatrix self = Inr self'"
    using CalcTransitionMatrix_total [OF assms(1-6) l assms(11)] by blast
  have P: "0 < length pGrid" using assms(5) by (simp add: mono_grid_def)
  have colk: "length (col T k) = length mGrid * length pGrid \<and>
              (\<forall>x\<in>set (col T k). 0 \<le> x \<and> x \<le> 1) \<and> sum_list (col T k) = 1"
    if T: "TranMatrix self' = Some T" and k: "k < length mGrid * length pGrid" for T k
  proof -
    define i where "i = k div length pGrid"
    define j where "j = k mod length pGrid"
    have j: "j < length pGrid" using P by (simp add: j_def)
    have i: "i < length mGrid" using k P by (simp add: i_def less_mult_imp_div_less)
    have kij: "k = i * length pGrid + j" by (simp add: i_def j_def)
    from CalcTransitionMatrix_column [OF r assms(1-3,6) l(1) i j] T
    obtain NB D where NB: "JumpToGrid mGrid pGrid ?Tran (map (\<lambda>_. 1) ?Tran) ?Probs = Inr NB"
      and D: "JumpToGrid mGrid pGrid
             (map2 (\<lambda>psi xi. Rfree self * (mGrid ! i - c (mGrid ! i)) / psi + xi) ?Perm ?Tran)
             (map (\<lambda>psi. pGrid ! j * psi) ?Perm) ?Probs = Inr D"
      and c: "col T k = map2 (\<lambda>a b. s * a + (1 - s) * b) D NB"
      unfolding kij by auto
    have lNB: "length NB = length mGrid * length pGrid" using JumpToGrid_Inr [OF NB] by simp
    have lD: "length D = length mGrid * length pGrid" using JumpToGrid_Inr [OF D] by simp
    have "sum_list NB = (\<Sum>i<length ?Tran. ?Probs ! i)" by (rule JumpToGrid_mass [OF NB])
    then have sNB: "sum_list NB = 1" using assms(13) l(2) by (simp add: sum_list_sum_lessThan)
    have "sum_list D = (\<Sum>i<length (map2 (\<lambda>psi xi. Rfree self * (mGrid ! i - c (mGrid ! i)) / psi + xi) ?Perm ?Tran).
              ?Probs ! i)"
      by (rule JumpToGrid_mass [OF D])
    then have sD: "sum_list D = 1" using assms(13) l by (simp add: sum_list_sum_lessThan)
    have n1: "\<forall>x\<in>set NB. 0 \<le> x" by (rule JumpToGrid_nonneg [OF NB assms(12)])
    have n2: "\<forall>x\<in>set D. 0 \<le> x" by (rule JumpToGrid_nonneg [OF D assms(12)])
    have nn: "\<forall>z\<in>set (col T k). 0 \<le> z"
      unfolding c by (rule convex_nonneg [OF n2 n1 assms(7,8)])
    have sm: "sum_list (col T k) = 1"
      unfolding c using sum_list_convex [of D NB s] lD lNB sD sNB by simp
    have "x \<le> 1" if "x \<in> set (col T k)" for x
      using nonneg_le_sum_list [OF nn that] sm by simp
    moreover have "length (col T k) = length mGrid * length pGrid"
      unfolding c using lD lNB by simp
    ultimately show ?thesis using nn sm by blast
  qed
  from CalcTransitionMatrix_Inr [OF r] assms(1,2) obtain T where
    T: "TranMatrix self' = Some T" "wf_grid (length mGrid * length pGrid) (length mGrid * length pGrid) T"
    by auto
  have "length T = length mGrid * length pGrid" using T(2) by (simp add: wf_grid_def)
  then show ?thesis using r T(1) colk [OF T(1)] by blast
qed

theorem CalcTransitionMatrix_column_stochastic_witness:
  "(case CalcTransitionMatrix example_agent of
      Inl e \<Rightarrow> None
    | Inr self' \<Rightarrow> map_option (\<lambda>T. col T 4) (TranMatrix self')) =
     Some [3 / 16, 0, 7 / 16, 3 / 8, 0, 0] \<and>
   (\<exists>self' T. CalcTransitionMatrix example_agent = Inr self' \<and> TranMatrix self' = Some T \<and>
      length T = 6 \<and> length (col T 4) = 6 \<and> sum_list (col T 4) = 1 \<and>
      0 \<le> col T 4 ! 2 \<and> col T 4 ! 2 \<le> 1)"
proof -
  have e: "(case CalcTransitionMatrix example_agent of
      Inl e \<Rightarrow> None
    | Inr self' \<Rightarrow> map_option (\<lambda>T. col T 4) (TranMatrix self')) =
     Some [3 / 16, 0, 7 / 16, 3 / 8, 0, 0]"
    by code_simp
  have h: "Dist_mGrid example_agent = Some [0, 5, 10]" "Dist_pGrid example_agent = Some [1, 2]"
    "cFunc example_agent = Some (\<lambda>m. m / 2)" "mono_grid [0, 5, 10]" "mono_grid [1, 2]"
    "LivPrb example_agent = 3 / 4 # []" "(0::real) \<le> 3 / 4" "(3 / 4 :: real) \<le> 1"
    "length (X0 (IncShkDstn example_agent)) = length (pmf (IncShkDstn example_agent))"
    "length (X1 (IncShkDstn example_agent)) = length (pmf (IncShkDstn example_agent))"
    "0 \<notin> set (X0 (IncShkDstn example_agent))"
    "\<forall>p\<in>set (pmf (IncShkDstn example_agent)). 0 \<le> p"
    "sum_list (pmf (IncShkDstn example_agent)) = 1"
    by (simp_all add: example_agent_def mono_grid_def)
  from CalcTransitionMatrix_column_stochastic [OF h]
  obtain self' T where
    1: "CalcTransitionMatrix example_agent = Inr self'" "TranMatrix self' = Some T"
      "length T = length [0, 5, 10 :: real] * length [1, 2 :: real]"
    and 2: "\<forall>k<length [0, 5, 10 :: real] * length [1, 2 :: real].
              length (col T k) = length [0, 5, 10 :: real] * length [1, 2 :: real] \<and>
              (\<forall>x\<in>set (col T k). 0 \<le> x \<and> x \<le> 1) \<and>
              sum_list (col T k) = 1"
    by blast
  have 3: "length (col T 4) = 6" "sum_list (col T 4) = 1" "\<forall>x\<in>set (col T 4). 0 \<le> x \<and> x \<le> 1"
    using 2 [rule_format, of 4] by simp_all
  have "col T 4 ! 2 \<in> set (col T 4)" using 3(1) by simp
  then have "0 \<le> col T 4 ! 2 \<and> col T 4 ! 2 \<le> 1" using 3(3) by blast
  then show ?thesis using e 1 3 by auto
qed

section \<open>Properties of the grid definition\<close>

text \<open>
  Claim C9, as amended. When \<open>cycles\<close> is not 0, \<open>DefineDistributionGrid\<close> raises nothing: it
  prints its message and returns normally, before any grid is built, and leaves both grid
  attributes as they were. The claim as stated (the call fails with a ConfigurationError) does
  not hold: the counterexample below is a call with \<open>cycles = 1\<close> that raises no exception.
\<close>

theorem DefineDistributionGrid_finite_horizon:
  assumes "cycles self \<noteq> 0"
  shows "DefineDistributionGrid make_grid_exp_mult self Dist_mGrid_arg Dist_pGrid_arg =
           (None, self\<lparr>stdout := stdout self @
              [''Distributional methods presently only work for perpetual youth agents (cycles=0)'']\<rparr>) \<and>
         Dist_mGrid (snd (DefineDistributionGrid make_grid_exp_mult self Dist_mGrid_arg Dist_pGrid_arg)) =
           Dist_mGrid self \<and>
         Dist_pGrid (snd (DefineDistributionGrid make_grid_exp_mult self Dist_mGrid_arg Dist_pGrid_arg)) =
           Dist_pGrid self"
  using assms by (simp add: DefineDistributionGrid_def)

theorem DefineDistributionGrid_finite_horizon_witness:
  "cycles (example_agent\<lparr>cycles := 1, Dist_mGrid := None, Dist_pGrid := None\<rparr>) \<noteq> 0 \<and>
   fst (DefineDistributionGrid (\<lambda>a b n k. [a, b])
          (example_agent\<lparr>cycles := 1, Dist_mGrid := None, Dist_pGrid := None\<rparr>) PyNone PyNone) = None \<and>
   Dist_mGrid (snd (DefineDistributionGrid (\<lambda>a b n k. [a, b])
          (example_agent\<lparr>cycles := 1, Dist_mGrid := None, Dist_pGrid := None\<rparr>) PyNone PyNone)) = None \<and>
   Dist_pGrid (snd (DefineDistributionGrid (\<lambda>a b n k. [a, b])
          (example_agent\<lparr>cycles := 1, Dist_mGrid := None, Dist_pGrid := None\<rparr>) PyNone PyNone)) = None"
proof -
  have h: "cycles (example_agent\<lparr>cycles := 1, Dist_mGrid := None, Dist_pGrid := None\<rparr>) \<noteq> 0"
    by simp
  from DefineDistributionGrid_finite_horizon [OF h, of "\<lambda>a b n k. [a, b]" PyNone PyNone]
  show ?thesis using h by simp
qed

theorem DefineDistributionGrid_finite_horizon_counterexample:
  "cycles (example_agent\<lparr>cycles := 1\<rparr>) \<noteq> 0 \<and>
   fst (DefineDistributionGrid (\<lambda>a b n k. [a, b]) (example_agent\<lparr>cycles := 1\<rparr>) PyNone PyNone) = None"
  by (simp add: DefineDistributionGrid_def)

text \<open>
  Claim C10, as amended. When \<open>cycles\<close> is 0, a numpy array of length at least 2 passed as
  \<open>Dist_mGrid\<close> or as \<open>Dist_pGrid\<close> makes \<open>DefineDistributionGrid\<close> raise ValueError (the truth
  value of the elementwise comparison with None) and the supplied grid is not adopted. The
  explicit grid parameters are usable only with None, a single-element array or a non-array:
  a call that raises nothing has such arguments, and each such explicit argument is adopted
  as the grid, also when the other argument is None. The claim as stated has no condition on
  \<open>cycles\<close>: with \<open>cycles = 1\<close> the comparison is never reached and the call returns without
  an exception, which is the counterexample below.
\<close>

theorem DefineDistributionGrid_array_argument:
  assumes "cycles self = 0" "2 \<le> length xs"
  shows "DefineDistributionGrid make_grid_exp_mult self (NdArray xs) Dist_pGrid_arg =
           (Some ValueError, self) \<and>
         fst (DefineDistributionGrid make_grid_exp_mult self Dist_mGrid_arg (NdArray xs)) =
           Some ValueError \<and>
         Dist_pGrid (snd (DefineDistributionGrid make_grid_exp_mult self Dist_mGrid_arg (NdArray xs))) =
           Dist_pGrid self \<and>
         (usable_grid_arg Dist_mGrid_arg \<and> Dist_mGrid_arg \<noteq> PyNone \<longrightarrow>
            Dist_mGrid (snd (DefineDistributionGrid make_grid_exp_mult self
                               Dist_mGrid_arg Dist_pGrid_arg)) =
              Some (grid_values Dist_mGrid_arg)) \<and>
         (usable_grid_arg Dist_mGrid_arg \<and> usable_grid_arg Dist_pGrid_arg \<and>
          Dist_pGrid_arg \<noteq> PyNone \<longrightarrow>
            DefineDistributionGrid make_grid_exp_mult self Dist_mGrid_arg Dist_pGrid_arg =
              (None, self\<lparr>Dist_mGrid := Some (if Dist_mGrid_arg = PyNone then aXtraGrid self
                                                else grid_values Dist_mGrid_arg),
                           Dist_pGrid := Some (grid_values Dist_pGrid_arg)\<rparr>)) \<and>
         (fst (DefineDistributionGrid make_grid_exp_mult self Dist_mGrid_arg Dist_pGrid_arg) = None \<longrightarrow>
            usable_grid_arg Dist_mGrid_arg \<and> usable_grid_arg Dist_pGrid_arg)"
proof -
  have u: "\<not> usable_grid_arg (NdArray xs)"
    using assms(2) by (simp add: usable_grid_arg_def)
  have 1: "DefineDistributionGrid make_grid_exp_mult self (NdArray xs) Dist_pGrid_arg =
           (Some ValueError, self)"
    using assms(1) u by (simp add: DefineDistributionGrid_def eq_None_truth_usable)
  have 2: "fst (DefineDistributionGrid make_grid_exp_mult self Dist_mGrid_arg (NdArray xs)) =
           Some ValueError \<and>
         Dist_pGrid (snd (DefineDistributionGrid make_grid_exp_mult self Dist_mGrid_arg (NdArray xs))) =
           Dist_pGrid self"
    using assms(1) u by (simp add: DefineDistributionGrid_def eq_None_truth_usable Let_def)
  have 3: "Dist_mGrid (snd (DefineDistributionGrid make_grid_exp_mult self
                               Dist_mGrid_arg Dist_pGrid_arg)) =
              Some (grid_values Dist_mGrid_arg)"
    if "usable_grid_arg Dist_mGrid_arg" "Dist_mGrid_arg \<noteq> PyNone"
    using assms(1) that
    by (simp add: DefineDistributionGrid_def eq_None_truth_usable Let_def split: sum.splits)
  have 4: "DefineDistributionGrid make_grid_exp_mult self Dist_mGrid_arg Dist_pGrid_arg =
              (None, self\<lparr>Dist_mGrid := Some (if Dist_mGrid_arg = PyNone then aXtraGrid self
                                                else grid_values Dist_mGrid_arg),
                           Dist_pGrid := Some (grid_values Dist_pGrid_arg)\<rparr>)"
    if "usable_grid_arg Dist_mGrid_arg" "usable_grid_arg Dist_pGrid_arg" "Dist_pGrid_arg \<noteq> PyNone"
    using assms(1) that
    by (simp add: DefineDistributionGrid_def eq_None_truth_usable Let_def)
  have 5: "usable_grid_arg Dist_mGrid_arg \<and> usable_grid_arg Dist_pGrid_arg"
    if "fst (DefineDistributionGrid make_grid_exp_mult self Dist_mGrid_arg Dist_pGrid_arg) = None"
    using assms(1) that
    by (auto simp: DefineDistributionGrid_def eq_None_truth_usable Let_def split: if_splits)
  show ?thesis using 1 2 3 4 5 by blast
qed

theorem DefineDistributionGrid_array_argument_witness:
  "cycles example_agent = 0 \<and> 2 \<le> length [1, 2 :: real] \<and>
   DefineDistributionGrid (\<lambda>a b n k. [a, b]) example_agent (NdArray [1, 2]) PyNone =
     (Some ValueError, example_agent) \<and>
   fst (DefineDistributionGrid (\<lambda>a b n k. [a, b]) example_agent PyNone (NdArray [1, 2])) =
     Some ValueError \<and>
   Dist_pGrid (snd (DefineDistributionGrid (\<lambda>a b n k. [a, b]) example_agent PyNone (NdArray [1, 2]))) =
     Some [1, 2] \<and>
   Dist_mGrid (snd (DefineDistributionGrid (\<lambda>a b n k. [a, b]) example_agent (NdArray [7]) PyNone)) =
     Some [7] \<and>
   DefineDistributionGrid (\<lambda>a b n k. [a, b]) example_agent PyNone (PyList [4, 6]) =
     (None, example_agent\<lparr>Dist_mGrid := Some [0, 5, 10], Dist_pGrid := Some [4, 6]\<rparr>) \<and>
   DefineDistributionGrid (\<lambda>a b n k. [a, b]) example_agent (NdArray [7]) (PyList [1, 3]) =
     (None, example_agent\<lparr>Dist_mGrid := Some [7], Dist_pGrid := Some [1, 3]\<rparr>) \<and>
   fst (DefineDistributionGrid (\<lambda>a b n k. [a, b]) example_agent (NdArray []) (PyList [1, 3])) \<noteq> None"
proof -
  have h: "cycles example_agent = 0" "2 \<le> length [1, 2 :: real]"
    by (simp_all add: example_agent_def)
  have p: "Dist_pGrid example_agent = Some [1, 2]" "aXtraGrid example_agent = [0, 5, 10]"
    by (simp_all add: example_agent_def)
  have us: "usable_grid_arg (NdArray [7])" "usable_grid_arg (PyList [1, 3])"
    "usable_grid_arg (PyList [4, 6])" "usable_grid_arg PyNone" "\<not> usable_grid_arg (NdArray [])"
    by (simp_all add: usable_grid_arg_def)
  from DefineDistributionGrid_array_argument [OF h, of "\<lambda>a b n k. [a, b]" PyNone PyNone]
  have 1: "DefineDistributionGrid (\<lambda>a b n k. [a, b]) example_agent (NdArray [1, 2]) PyNone =
     (Some ValueError, example_agent)"
    and 2: "fst (DefineDistributionGrid (\<lambda>a b n k. [a, b]) example_agent PyNone (NdArray [1, 2])) =
     Some ValueError"
    and 3: "Dist_pGrid (snd (DefineDistributionGrid (\<lambda>a b n k. [a, b]) example_agent PyNone (NdArray [1, 2]))) =
     Some [1, 2]"
    using p by simp_all
  from DefineDistributionGrid_array_argument [OF h, of "\<lambda>a b n k. [a, b]" PyNone "NdArray [7]"] us
  have 4: "Dist_mGrid (snd (DefineDistributionGrid (\<lambda>a b n k. [a, b]) example_agent (NdArray [7]) PyNone)) =
     Some [7]"
    by simp
  from DefineDistributionGrid_array_argument [OF h, of "\<lambda>a b n k. [a, b]" "PyList [4, 6]" PyNone] us
  have 5: "DefineDistributionGrid (\<lambda>a b n k. [a, b]) example_agent PyNone (PyList [4, 6]) =
     (None, example_agent\<lparr>Dist_mGrid := Some [0, 5, 10], Dist_pGrid := Some [4, 6]\<rparr>)"
    using p by simp
  from DefineDistributionGrid_array_argument [OF h, of "\<lambda>a b n k. [a, b]" "PyList [1, 3]" "NdArray [7]"] us
  have 6: "DefineDistributionGrid (\<lambda>a b n k. [a, b]) example_agent (NdArray [7]) (PyList [1, 3]) =
     (None, example_agent\<lparr>Dist_mGrid := Some [7], Dist_pGrid := Some [1, 3]\<rparr>)"
    by simp
  from DefineDistributionGrid_array_argument [OF h, of "\<lambda>a b n k. [a, b]" "PyList [1, 3]" "NdArray []"] us
  have 7: "fst (DefineDistributionGrid (\<lambda>a b n k. [a, b]) example_agent (NdArray []) (PyList [1, 3])) \<noteq> None"
    by blast
  show ?thesis using h 1 2 3 4 5 6 7 by blast
qed

theorem DefineDistributionGrid_array_argument_counterexample:
  "2 \<le> length [1, 2 :: real] \<and>
   fst (DefineDistributionGrid (\<lambda>a b n k. [a, b]) (example_agent\<lparr>cycles := 1\<rparr>)
          (NdArray [1, 2]) PyNone) = None \<and>
   fst (DefineDistributionGrid (\<lambda>a b n k. [a, b]) (example_agent\<lparr>cycles := 1\<rparr>)
          PyNone (NdArray [1, 2])) = None"
  by (simp add: DefineDistributionGrid_def)

section \<open>Properties of the stationary distribution step\<close>

text \<open>
  Claim C7, as amended. Whatever vector the eigen-solver returns for the eigenvalue of largest
  magnitude (one entry per grid cell), \<open>CalcErgodicDist\<close> returns its real part divided by the
  sum of the real parts. When that sum is not zero the returned vector is finite and sums to
  1 (exactly, floats being read as reals); when moreover the solver's pair is an exact
  eigenpair of the transition matrix with eigenvalue 1, the returned vector is a fixed point
  of the matrix. The claim as stated, for every transition matrix and with no condition on
  the solver's vector, does not hold: for the identity matrix \<open>[1, -1, 0]\<close> is an eigenvector
  of the largest eigenvalue 1, its real parts sum to zero, and the method returns
  \<open>[inf, -inf, nan]\<close>, which is no vector that sums to 1.
\<close>

theorem CalcErgodicDist_normalised_real_part:
  assumes "TranMatrix self = Some T" "Dist_mGrid self = Some mGrid" "Dist_pGrid self = Some pGrid"
    and "eigs T = Inr (eigen, v)" "length v = length mGrid * length pGrid"
    and "sum_list (map Re v) \<noteq> 0"
  shows "\<exists>self' \<pi>. CalcErgodicDist eigs self = Inr self' \<and>
           vec_dstn self' = Some (map Finite \<pi>) \<and>
           ergodic_distr self' =
             Some (reshape (length mGrid) (length pGrid) (map Finite \<pi>)) \<and>
           \<pi> = map (\<lambda>z. Re z / sum_list (map Re v)) v \<and>
           sum_list \<pi> = 1 \<and>
           (eigen = 1 \<and> cmat_vec T v = map (\<lambda>z. eigen * z) v \<longrightarrow> mat_vec T \<pi> = \<pi>)"
proof -
  let ?p = "map (\<lambda>z. Re z / sum_list (map Re v)) v"
  have d: "map (\<lambda>x. np_true_divide x (sum_list (map Re v))) (map Re v) = map Finite ?p"
    using assms(6) by (simp add: np_true_divide_def)
  have r: "CalcErgodicDist eigs self =
             Inr (self\<lparr>vec_dstn := Some (map Finite ?p),
                        ergodic_distr := Some (reshape (length mGrid) (length pGrid) (map Finite ?p))\<rparr>)"
    using assms(1-5) by (simp add: CalcErgodicDist_def Let_def d del: map_map)
  have s: "sum_list ?p = 1" by (rule normalised_sum [OF assms(6)])
  have f: "mat_vec T ?p = ?p" if "eigen = 1 \<and> cmat_vec T v = map (\<lambda>z. eigen * z) v"
    using that by (intro fixed_point_of_eigenvector) simp
  show ?thesis using r s f by auto
qed

theorem CalcErgodicDist_normalised_real_part_witness:
  "map_sum id vec_dstn
     (CalcErgodicDist (\<lambda>T. Inr (1, [Complex 1 1, Complex 1 1, Complex 1 1])) example_chain) =
     Inr (Some [Finite (1 / 3), Finite (1 / 3), Finite (1 / 3)]) \<and>
   sum_list [1 / 3, 1 / 3, 1 / 3 :: real] = 1 \<and>
   cmat_vec [[1 / 2, 1 / 2, 0], [1 / 2, 0, 1 / 2], [0, 1 / 2, 1 / 2]]
     [Complex 1 1, Complex 1 1, Complex 1 1] = [Complex 1 1, Complex 1 1, Complex 1 1] \<and>
   mat_vec [[1 / 2, 1 / 2, 0], [1 / 2, 0, 1 / 2], [0, 1 / 2, 1 / 2]] [1 / 3, 1 / 3, 1 / 3] =
     [1 / 3, 1 / 3, 1 / 3]"
proof -
  let ?T = "[[1 / 2, 1 / 2, 0], [1 / 2, 0, 1 / 2], [0, 1 / 2, 1 / 2 :: real]]"
  let ?v = "[Complex 1 1, Complex 1 1, Complex 1 1]"
  have h: "TranMatrix example_chain = Some ?T"
    "Dist_mGrid example_chain = Some [0, 5, 10]" "Dist_pGrid example_chain = Some [1]"
    "(\<lambda>T. Inr (1, ?v)) ?T = Inr (1 :: complex, ?v)"
    "length ?v = length [0, 5, 10 :: real] * length [1 :: real]"
    "sum_list (map Re ?v) \<noteq> 0"
    by (simp_all add: example_chain_def example_agent_def)
  have e: "cmat_vec ?T ?v = ?v"
    by (simp add: cmat_vec_def complex_eq_iff)
  have p: "map (\<lambda>z. Re z / sum_list (map Re ?v)) ?v = [1 / 3, 1 / 3, 1 / 3]"
    by simp
  from CalcErgodicDist_normalised_real_part [OF h]
  obtain self' \<pi> where 1: "CalcErgodicDist (\<lambda>T. Inr (1, ?v)) example_chain = Inr self'"
    "vec_dstn self' = Some (map Finite \<pi>)"
    "\<pi> = map (\<lambda>z. Re z / sum_list (map Re ?v)) ?v" "sum_list \<pi> = 1"
    and 2: "(1 :: complex) = 1 \<and> cmat_vec ?T ?v = map (\<lambda>z. 1 * z) ?v \<longrightarrow> mat_vec ?T \<pi> = \<pi>"
    by blast
  have pi: "\<pi> = [1 / 3, 1 / 3, 1 / 3]" using 1(3) p by simp
  have 3: "mat_vec ?T [1 / 3, 1 / 3, 1 / 3] = [1 / 3, 1 / 3, 1 / 3]"
    using 2 e unfolding pi by simp
  have 4: "sum_list [1 / 3, 1 / 3, 1 / 3 :: real] = 1" using 1(4) unfolding pi .
  have 5: "map_sum id vec_dstn (CalcErgodicDist (\<lambda>T. Inr (1, ?v)) example_chain) =
     Inr (Some [Finite (1 / 3), Finite (1 / 3), Finite (1 / 3)])"
    using 1(1,2) unfolding pi by simp
  show ?thesis using 3 4 5 e by blast
qed

theorem CalcErgodicDist_normalised_real_part_counterexample:
  "cmat_vec [[1, 0, 0], [0, 1, 0], [0, 0, 1]] [1, - 1, 0] = map (\<lambda>z. 1 * z) [1, - 1, 0] \<and>
   map_sum id vec_dstn (CalcErgodicDist (\<lambda>T. Inr (1, [1, - 1, 0])) example_solved) =
     Inr (Some [PosInf, NegInf, NaN]) \<and>
   \<not> (\<exists>\<pi>. map Finite \<pi> = [PosInf, NegInf, NaN] \<and> sum_list \<pi> = 1)"
  by (auto simp: cmat_vec_def CalcErgodicDist_def example_solved_def example_agent_def
      np_true_divide_def Let_def)

text \<open>
  Claim C8, as amended. \<open>CalcErgodicDist\<close> checks nothing about the eigenvector it gets from
  the eigen-solver: whenever the solver returns a vector with one entry per grid cell, the
  method returns the real parts divided by their sum, whatever the imaginary parts, the signs
  or the sum are (a zero sum gives non-finite entries, not an exception); the only exceptions
  are those the solver raises itself. The claim as stated (a ConvergenceError for a complex,
  zero-sum or sign-indefinite eigenvector) does not hold. In the counterexample the matrix is
  the identity, so every non-zero vector is an eigenvector of its largest eigenvalue 1: a
  vector with an imaginary first entry, one with zero sum and one with mixed signs are each
  turned into a result.
\<close>

theorem CalcErgodicDist_no_validation:
  assumes "TranMatrix self = Some T" "Dist_mGrid self = Some mGrid" "Dist_pGrid self = Some pGrid"
  shows "(\<forall>e. eigs T = Inl e \<longrightarrow> CalcErgodicDist eigs self = Inl e) \<and>
         (\<forall>eigen v. eigs T = Inr (eigen, v) \<longrightarrow> length v = length mGrid * length pGrid \<longrightarrow>
            CalcErgodicDist eigs self =
              Inr (self\<lparr>vec_dstn := Some (map (\<lambda>z. np_true_divide (Re z) (sum_list (map Re v))) v),
                         ergodic_distr := Some (reshape (length mGrid) (length pGrid)
                           (map (\<lambda>z. np_true_divide (Re z) (sum_list (map Re v))) v))\<rparr>))"
  using assms by (simp add: CalcErgodicDist_def Let_def comp_def)

theorem CalcErgodicDist_no_validation_witness:
  "CalcErgodicDist (\<lambda>T. Inr (1, [Complex 0 1, 1, 1])) example_solved =
     Inr (example_solved\<lparr>vec_dstn := Some [Finite 0, Finite (1 / 2), Finite (1 / 2)],
                          ergodic_distr := Some [[Finite 0], [Finite (1 / 2)], [Finite (1 / 2)]]\<rparr>) \<and>
   CalcErgodicDist (\<lambda>T. Inl SolverError) example_solved = Inl SolverError"
proof -
  have h: "TranMatrix example_solved = Some [[1, 0, 0], [0, 1, 0], [0, 0, 1]]"
    "Dist_mGrid example_solved = Some [0, 5, 10]" "Dist_pGrid example_solved = Some [1]"
    by (simp_all add: example_solved_def example_agent_def)
  from CalcErgodicDist_no_validation [OF h, of "\<lambda>T. Inr (1, [Complex 0 1, 1, 1])"]
  have 1: "CalcErgodicDist (\<lambda>T. Inr (1, [Complex 0 1, 1, 1])) example_solved =
     Inr (example_solved\<lparr>vec_dstn := Some [Finite 0, Finite (1 / 2), Finite (1 / 2)],
                          ergodic_distr := Some [[Finite 0], [Finite (1 / 2)], [Finite (1 / 2)]]\<rparr>)"
    by (simp add: np_true_divide_def reshape_def)
  from CalcErgodicDist_no_validation [OF h, of "\<lambda>T. Inl SolverError"]
  have 2: "CalcErgodicDist (\<lambda>T. Inl SolverError) example_solved = Inl SolverError"
    by simp
  show ?thesis using 1 2 by blast
qed

theorem CalcErgodicDist_no_validation_counterexample:
  "Im (Complex 0 1) = 1 \<and> Re (Complex 0 1) = 0 \<and>
   map_sum id vec_dstn (CalcErgodicDist (\<lambda>T. Inr (1, [Complex 0 1, 1, 1])) example_solved) =
     Inr (Some [Finite 0, Finite (1 / 2), Finite (1 / 2)]) \<and>
   map_sum id vec_dstn (CalcErgodicDist (\<lambda>T. Inr (1, [1, - 1, 0])) example_solved) =
     Inr (Some [PosInf, NegInf, NaN]) \<and>
   map_sum id vec_dstn (CalcErgodicDist (\<lambda>T. Inr (1, [2, - 2, 1])) example_solved) =
     Inr (Some [Finite 2, Finite (- 2), Finite 1])"
  by (simp add: CalcErgodicDist_def example_solved_def example_agent_def np_true_divide_def Let_def)

end
